theory Spec2Isabelle
  imports Complex_Main
begin

text \<open>
  A shallow embedding of the turn and combat engine of WordGame, a word game of two sides
  on three lanes: tiles and tile containers, lanes and racks, the tile pool, the relics and
  their manager, the dictionary, the board (refilling a rack, validating and ending a turn,
  combat, mulligan, lane shifting), the opponent's word search and word placement, and
  the events of a game that activate relics.
  Mutation is explicit state passing, \<open>Math.random\<close> is an explicit stream, a method
  call on a missing lane is an error value, and every loop is a recursive function.
\<close>

section \<open>Configuration constants (config.js)\<close>

definition RACK_CAPACITY :: nat where
  "RACK_CAPACITY = 7"

definition LANE_COUNT :: nat where
  "LANE_COUNT = 3"

definition LANE_MAX_TILES :: nat where
  "LANE_MAX_TILES = 12"

definition STARTING_HEALTH :: int where
  "STARTING_HEALTH = 30"

definition MULLIGAN_COUNT :: int where
  "MULLIGAN_COUNT = 3"

definition MIN_WORD_LENGTH :: nat where
  "MIN_WORD_LENGTH = 2"

text \<open>
  \<open>CONFIG.TILE_TYPES\<close>: the strings 'main', 'steel', 'ice', 'flower', 'gold'.
  \<open>CONFIG.TILE_POWERS\<close> gives ice, flower and gold the powers shield, heal and meteor.
\<close>

datatype tileType = MAIN | STEEL | ICE | FLOWER | GOLD

datatype power = Shield | Heal | Meteor

definition TILE_POWERS :: "tileType \<Rightarrow> power option" where
  "TILE_POWERS t = (case t of ICE \<Rightarrow> Some Shield | FLOWER \<Rightarrow> Some Heal
                     | GOLD \<Rightarrow> Some Meteor | _ \<Rightarrow> None)"

section \<open>Letters and case conversion\<close>

text \<open>
  A letter is a one-character string; \<open>toUpperCase\<close> and \<open>toLowerCase\<close> are the
  JavaScript string methods restricted to one ASCII character.
\<close>

definition upperLetters :: string where
  "upperLetters = ''ABCDEFGHIJKLMNOPQRSTUVWXYZ''"

definition lowerLetters :: string where
  "lowerLetters = ''abcdefghijklmnopqrstuvwxyz''"

definition toUpperCase :: "char \<Rightarrow> char" where
  "toUpperCase c = (case map_of (zip lowerLetters upperLetters) c of Some u \<Rightarrow> u | None \<Rightarrow> c)"

definition toLowerCase :: "char \<Rightarrow> char" where
  "toLowerCase c = (case map_of (zip upperLetters lowerLetters) c of Some l \<Rightarrow> l | None \<Rightarrow> c)"

text \<open>
  A table of letter counts is a JavaScript object from letter to count, kept as the list of
  its entries in key order.
\<close>

type_synonym letterCounts = "(char \<times> nat) list"

text \<open>Letter counts: \<open>counts[l] = (counts[l] || 0) + 1\<close> and \<open>counts[l] || 0\<close>.\<close>

fun increment :: "char \<Rightarrow> letterCounts \<Rightarrow> letterCounts" where
  "increment l [] = [(l, 1)]"
| "increment l ((k, n) # cs) = (if k = l then (k, n + 1) # cs else (k, n) # increment l cs)"

definition countOf :: "letterCounts \<Rightarrow> char \<Rightarrow> nat" where
  "countOf cs l = (case map_of cs l of Some n \<Rightarrow> n | None \<Rightarrow> 0)"

section \<open>Tiles and tile containers (entities/tile.js, tile_container.js)\<close>

text \<open>
  Pixel positions, animation fields and the selection flag of a tile belong to the
  rendering layer and are left out; \<open>repositionTiles\<close> only writes those fields.
\<close>

record tile =
  letter :: char
  type :: tileType

definition Tile :: "char \<Rightarrow> tileType \<Rightarrow> tile" where
  "Tile l t = \<lparr>letter = toUpperCase l, type = t\<rparr>"

definition getPower :: "tile \<Rightarrow> power option" where
  "getPower t = TILE_POWERS (type t)"

record container =
  tiles :: "tile list"
  maxTiles :: nat
  gapIndex :: int

definition TileContainer :: "nat \<Rightarrow> container" where
  "TileContainer m = \<lparr>tiles = [], maxTiles = m, gapIndex = -1\<rparr>"

definition isFull :: "'a container_scheme \<Rightarrow> bool" where
  "isFull c = (length (tiles c) \<ge> maxTiles c)"

definition isEmpty :: "'a container_scheme \<Rightarrow> bool" where
  "isEmpty c = (length (tiles c) = 0)"

definition getLetters :: "'a container_scheme \<Rightarrow> char list" where
  "getLetters c = map letter (tiles c)"

definition addTile :: "tile \<Rightarrow> 'a container_scheme \<Rightarrow> bool \<times> 'a container_scheme" where
  "addTile t c =
     (if length (tiles c) \<ge> maxTiles c then (False, c)
      else (True, c\<lparr>tiles := tiles c @ [t]\<rparr>))"

text \<open>\<open>Array.splice(i, 0, t)\<close> and \<open>Array.splice(i, 1)\<close> on a dense array.\<close>

definition splice_insert :: "nat \<Rightarrow> 'a \<Rightarrow> 'a list \<Rightarrow> 'a list" where
  "splice_insert i x xs = take i xs @ x # drop i xs"

definition splice_remove :: "nat \<Rightarrow> 'a list \<Rightarrow> 'a list" where
  "splice_remove i xs = take i xs @ drop (Suc i) xs"

definition insertTileAt :: "tile \<Rightarrow> int \<Rightarrow> 'a container_scheme \<Rightarrow> bool \<times> 'a container_scheme" where
  "insertTileAt t index c =
     (if length (tiles c) \<ge> maxTiles c then (False, c)
      else
        let clampedIndex = max 0 (min index (int (length (tiles c))))
        in (True, c\<lparr>tiles := splice_insert (nat clampedIndex) t (tiles c), gapIndex := -1\<rparr>))"

definition removeTile :: "int \<Rightarrow> 'a container_scheme \<Rightarrow> tile option \<times> 'a container_scheme" where
  "removeTile index c =
     (if index < 0 \<or> index \<ge> int (length (tiles c)) then (None, c)
      else (Some (tiles c ! nat index), c\<lparr>tiles := splice_remove (nat index) (tiles c)\<rparr>))"

definition clear :: "'a container_scheme \<Rightarrow> tile list \<times> 'a container_scheme" where
  "clear c = (tiles c, c\<lparr>tiles := [], gapIndex := -1\<rparr>)"

text \<open>A caller's sequence of the four mutating operations, results discarded.\<close>

datatype containerOp = AddTile tile | InsertTileAt tile int | RemoveTile int | Clear

fun applyOp :: "containerOp \<Rightarrow> 'a container_scheme \<Rightarrow> 'a container_scheme" where
  "applyOp (AddTile t) c = snd (addTile t c)"
| "applyOp (InsertTileAt t i) c = snd (insertTileAt t i c)"
| "applyOp (RemoveTile i) c = snd (removeTile i c)"
| "applyOp Clear c = snd (clear c)"

fun applyOps :: "containerOp list \<Rightarrow> 'a container_scheme \<Rightarrow> 'a container_scheme" where
  "applyOps [] c = c"
| "applyOps (x # xs) c = applyOps xs (applyOp x c)"

section \<open>Lanes and racks (entities/lane.js, entities/rack.js)\<close>

text \<open>\<open>currentPlayer\<close>, lane owners and rack numbers are 1 (the player) or 2 (the enemy).\<close>

datatype player = P1 | P2

record lane = container +
  index :: nat
  owner :: "player option"
  temporaryOwner :: "player option"
  visible :: bool
  locked :: bool
  startTurnTileCount :: nat

definition Lane :: "nat \<Rightarrow> lane" where
  "Lane i = \<lparr>tiles = [], maxTiles = LANE_MAX_TILES, gapIndex = -1, index = i,
             owner = None, temporaryOwner = None, visible = True, locked = False,
             startTurnTileCount = 0\<rparr>"

record rack = container +
  playerNumber :: player

definition Rack :: "player \<Rightarrow> rack" where
  "Rack p = \<lparr>tiles = [], maxTiles = RACK_CAPACITY, gapIndex = -1, playerNumber = p\<rparr>"

definition Lane_removeTile :: "int \<Rightarrow> lane \<Rightarrow> tile option \<times> lane" where
  "Lane_removeTile i l = (if locked l then (None, l) else removeTile i l)"

definition getWord :: "lane \<Rightarrow> string" where
  "getWord l = map letter (tiles l)"

definition setOwner :: "player option \<Rightarrow> lane \<Rightarrow> lane" where
  "setOwner playerNum l =
     l\<lparr>owner := playerNum, temporaryOwner := None,
       tiles := map (\<lambda>t. t\<lparr>type := STEEL\<rparr>) (tiles l)\<rparr>"

definition setTemporaryOwner :: "player \<Rightarrow> lane \<Rightarrow> lane" where
  "setTemporaryOwner playerNum l = l\<lparr>temporaryOwner := Some playerNum\<rparr>"

definition clearTemporaryOwner :: "lane \<Rightarrow> lane" where
  "clearTemporaryOwner l = l\<lparr>temporaryOwner := None\<rparr>"

definition getEffectiveOwner :: "lane \<Rightarrow> player option" where
  "getEffectiveOwner l = (if temporaryOwner l \<noteq> None then temporaryOwner l else owner l)"

definition calculateDamage :: "lane \<Rightarrow> nat" where
  "calculateDamage l = (if getEffectiveOwner l = None then 0 else length (tiles l))"

record effects =
  shield :: nat
  heal :: nat
  meteor :: nat

definition countPower :: "effects \<Rightarrow> tile \<Rightarrow> effects" where
  "countPower e t =
     (case getPower t of
        None \<Rightarrow> e
      | Some Shield \<Rightarrow> e\<lparr>shield := shield e + 1\<rparr>
      | Some Heal \<Rightarrow> e\<lparr>heal := heal e + 1\<rparr>
      | Some Meteor \<Rightarrow> e\<lparr>meteor := meteor e + 1\<rparr>)"

definition getSpecialEffects :: "lane \<Rightarrow> effects" where
  "getSpecialEffects l = foldl countPower \<lparr>shield = 0, heal = 0, meteor = 0\<rparr> (tiles l)"

definition hasNewTiles :: "lane \<Rightarrow> bool" where
  "hasNewTiles l = (length (tiles l) > startTurnTileCount l)"

definition saveTurnStartState :: "lane \<Rightarrow> lane" where
  "saveTurnStartState l = l\<lparr>startTurnTileCount := length (tiles l)\<rparr>"

definition Lane_clear :: "lane \<Rightarrow> tile list \<times> lane" where
  "Lane_clear l =
     (let (removed, l') = clear l
      in (removed, l'\<lparr>owner := None, temporaryOwner := None\<rparr>))"

section \<open>The tile pool (systems/tile_set.js)\<close>

text \<open>
  An element of \<open>persistentTiles\<close> or \<open>remainingTiles\<close> is a letter string, or an object
  with a letter and a power.
\<close>

datatype tileData = Plain char | Powered char power

record tileSet =
  persistentTiles :: "tileData list"
  remainingTiles :: "tileData list"

definition tileLetter :: "tileData \<Rightarrow> char" where
  "tileLetter d = (case d of Plain l \<Rightarrow> l | Powered l p \<Rightarrow> l)"

definition getTileTypeForPower :: "power \<Rightarrow> tileType" where
  "getTileTypeForPower p = (case p of Shield \<Rightarrow> ICE | Heal \<Rightarrow> FLOWER | Meteor \<Rightarrow> GOLD)"

definition getPowerForTileType :: "tileType \<Rightarrow> power option" where
  "getPowerForTileType t =
     (case t of ICE \<Rightarrow> Some Shield | FLOWER \<Rightarrow> Some Heal | GOLD \<Rightarrow> Some Meteor | _ \<Rightarrow> None)"

definition createTileFromData :: "tileData \<Rightarrow> tile" where
  "createTileFromData d =
     (case d of Powered l p \<Rightarrow> Tile l (getTileTypeForPower p) | Plain l \<Rightarrow> Tile l MAIN)"

text \<open>\<open>Array.findIndex\<close>, with None for -1.\<close>

fun findIndex :: "('a \<Rightarrow> bool) \<Rightarrow> 'a list \<Rightarrow> nat option" where
  "findIndex P [] = None"
| "findIndex P (x # xs) = (if P x then Some 0 else map_option Suc (findIndex P xs))"

text \<open>
  The random source: each call of \<open>Math.floor(Math.random() * n)\<close> takes the next value
  \<open>r\<close> of the stream and yields \<open>r mod n\<close>, any index below \<open>n\<close>; an exhausted stream
  yields 0.
\<close>

type_synonym rng = "nat list"

fun randomIndex :: "nat \<Rightarrow> rng \<Rightarrow> nat \<times> rng" where
  "randomIndex n [] = (0, [])"
| "randomIndex n (r # rs) = (r mod n, rs)"

definition drawTile :: "char option \<Rightarrow> rng \<Rightarrow> tileSet \<Rightarrow> tile option \<times> rng \<times> tileSet" where
  "drawTile specificLetter g ts =
     (if length (remainingTiles ts) = 0 then (None, g, ts)
      else case specificLetter of
        Some sl \<Rightarrow>
          (let letter = toUpperCase sl
           in case findIndex (\<lambda>t. toUpperCase (tileLetter t) = letter) (remainingTiles ts) of
                None \<Rightarrow> (None, g, ts)
              | Some idx \<Rightarrow>
                  (Some (createTileFromData (remainingTiles ts ! idx)), g,
                   ts\<lparr>remainingTiles := splice_remove idx (remainingTiles ts)\<rparr>))
      | None \<Rightarrow>
          (let (idx, g') = randomIndex (length (remainingTiles ts)) g
           in (Some (createTileFromData (remainingTiles ts ! idx)), g',
               ts\<lparr>remainingTiles := splice_remove idx (remainingTiles ts)\<rparr>)))"

definition returnTile :: "tile \<Rightarrow> tileSet \<Rightarrow> tileSet" where
  "returnTile t ts =
     (case getPowerForTileType (type t) of
        Some p \<Rightarrow> ts\<lparr>remainingTiles := remainingTiles ts @ [Powered (letter t) p]\<rparr>
      | None \<Rightarrow> ts\<lparr>remainingTiles := remainingTiles ts @ [Plain (letter t)]\<rparr>)"

definition returnTiles :: "tile list \<Rightarrow> tileSet \<Rightarrow> tileSet" where
  "returnTiles ts s = foldl (\<lambda>s t. returnTile t s) s ts"

section \<open>Relics (systems/relics.js)\<close>

text \<open>
  A relic is its name, its word list (stored in lower case) and its capabilities, each with
  the default of the base class. The numeric capabilities return JavaScript numbers,
  modelled as rationals. Description and image path are display data.
\<close>

record relic =
  name :: string
  wordList :: "string list"
  assignedOnly :: bool
  getWordScoreMult :: "string \<Rightarrow> rat"
  getWordScoreAdditive :: "string \<Rightarrow> rat"
  getWordVulnerabilityMult :: "string \<Rightarrow> rat"
  getWordHealthPercentDamage :: "string \<Rightarrow> rat"
  getWordIsUnblockable :: "string \<Rightarrow> bool"
  getWordAcceptedHealing :: "string \<Rightarrow> rat"
  getRequiredRackLetters :: "char option"
  getAdditionalWordList :: "string list"

definition Relic :: "string \<Rightarrow> relic" where
  "Relic n = \<lparr>name = n, wordList = [], assignedOnly = False,
              getWordScoreMult = (\<lambda>w. 1), getWordScoreAdditive = (\<lambda>w. 0),
              getWordVulnerabilityMult = (\<lambda>w. 1), getWordHealthPercentDamage = (\<lambda>w. 0),
              getWordIsUnblockable = (\<lambda>w. False), getWordAcceptedHealing = (\<lambda>w. 0),
              getRequiredRackLetters = None, getAdditionalWordList = []\<rparr>"

definition isWordInList :: "string list \<Rightarrow> string \<Rightarrow> bool" where
  "isWordInList ws w = (map toLowerCase w \<in> set ws)"

definition startsWith :: "string \<Rightarrow> char \<Rightarrow> bool" where
  "startsWith w c = (case w of [] \<Rightarrow> False | x # _ \<Rightarrow> x = c)"

definition RockRelic :: relic where
  "RockRelic = (Relic ''Rock'')
     \<lparr>wordList := [''rock''],
      getWordHealthPercentDamage := (\<lambda>w. if isWordInList [''rock''] w then 1 / 2 else 0),
      getWordIsUnblockable := (\<lambda>w. isWordInList [''rock''] w)\<rparr>"

definition AlphaRelic :: relic where
  "AlphaRelic = (Relic ''Alpha'')
     \<lparr>getWordScoreMult := (\<lambda>w. if startsWith (map toLowerCase w) CHR ''a'' then 2 else 1)\<rparr>"

definition WormRelic :: relic where
  "WormRelic = (Relic ''Worm'')
     \<lparr>getWordScoreMult := (\<lambda>w. if startsWith (map toLowerCase w) CHR ''w'' then 2 else 1)\<rparr>"

definition HissRelic :: relic where
  "HissRelic = (Relic ''Hiss'')\<lparr>getRequiredRackLetters := Some CHR ''s''\<rparr>"

definition YolkRelic :: relic where
  "YolkRelic = (Relic ''Yolk'')
     \<lparr>getWordAcceptedHealing := (\<lambda>w. if length w = 3 then 1 else 0)\<rparr>"

definition curvedLetters :: string where
  "curvedLetters = ''bcdgjopqrsu''"

definition StraightRelic :: relic where
  "StraightRelic = (Relic ''Straight and Narrow'')
     \<lparr>getWordScoreMult :=
        (\<lambda>w. if list_ex (\<lambda>c. c \<in> set curvedLetters) (map toLowerCase w) then 1 else 2)\<rparr>"

text \<open>The loop of the Alphabet relic from index 1: the longest run of consecutive
  character codes, with \<open>currentSeq\<close> and \<open>maxSeq\<close>.\<close>

fun sequentialRun :: "char list \<Rightarrow> nat \<Rightarrow> nat \<Rightarrow> nat" where
  "sequentialRun (a # b # rest) currentSeq maxSeq =
     (if (of_char b :: nat) = of_char a + 1
      then sequentialRun (b # rest) (currentSeq + 1) (max maxSeq (currentSeq + 1))
      else sequentialRun (b # rest) 1 maxSeq)"
| "sequentialRun cs currentSeq maxSeq = maxSeq"

definition AlphabetRelic :: relic where
  "AlphabetRelic = (Relic ''Alphabet'')
     \<lparr>getWordScoreMult := (\<lambda>w. of_nat (sequentialRun (map toLowerCase w) 1 1))\<rparr>"

fun alphabetical :: "char list \<Rightarrow> bool" where
  "alphabetical (a # b # rest) =
     (if (of_char b :: nat) < of_char a then False else alphabetical (b # rest))"
| "alphabetical cs = True"

definition ABCsRelic :: relic where
  "ABCsRelic = (Relic ''ABCs'')
     \<lparr>getWordScoreMult := (\<lambda>w. if alphabetical (map toLowerCase w) then 2 else 1)\<rparr>"

definition TacocatRelic :: relic where
  "TacocatRelic = (Relic ''Tacocat'')
     \<lparr>wordList := [''tacocat''], getAdditionalWordList := [''tacocat''],
      getWordScoreMult := (\<lambda>w. if map toLowerCase w = rev (map toLowerCase w) then 2 else 1)\<rparr>"

definition TrebleCleftRelic :: relic where
  "TrebleCleftRelic = (Relic ''Treble Cleft'')
     \<lparr>wordList := [''do'', ''re'', ''mi'', ''fa'', ''so'', ''la'', ''ti''],
      getAdditionalWordList := [''do'', ''re'', ''mi'', ''fa'', ''so'', ''la'', ''ti''],
      getWordScoreAdditive :=
        (\<lambda>w. if isWordInList [''do'', ''re'', ''mi'', ''fa'', ''so'', ''la'', ''ti''] w
             then 6 else 0)\<rparr>"

text \<open>The Bomb relic counts the letters a to z of the lower-cased word and returns the
  largest count, at least 1.\<close>

definition BombRelic :: relic where
  "BombRelic = (Relic ''Bomb'')
     \<lparr>getWordScoreMult :=
        (\<lambda>w. of_nat (foldl max 1
                 (map snd (foldl (\<lambda>counts c. if c \<in> set lowerLetters then increment c counts
                                               else counts)
                                 [] (map toLowerCase w)))))\<rparr>"

text \<open>The weakness relics, assigned to enemies only.\<close>

definition weaknessRelic :: "string \<Rightarrow> string list \<Rightarrow> relic" where
  "weaknessRelic n ws = (Relic n)
     \<lparr>wordList := ws, assignedOnly := True,
      getWordVulnerabilityMult := (\<lambda>w. if isWordInList ws w then 2 else 1)\<rparr>"

definition ColdWordsRelic :: relic where
  "ColdWordsRelic = weaknessRelic ''Cold Words''
     [''ice'', ''snow'', ''chill'', ''frost'', ''cold'', ''freeze'', ''frozen'', ''arctic'',
      ''polar'', ''winter'']"

definition BugWordsRelic :: relic where
  "BugWordsRelic = weaknessRelic ''Bug Words''
     [''ant'', ''fly'', ''bug'', ''bee'', ''moth'', ''wasp'', ''pest'', ''grub'', ''mite'',
      ''flea'']"

definition CleanWordsRelic :: relic where
  "CleanWordsRelic = weaknessRelic ''Clean Words''
     [''clean'', ''wash'', ''soap'', ''scrub'', ''tidy'', ''neat'', ''pure'', ''fresh'',
      ''wipe'', ''rinse'']"

definition DryWordsRelic :: relic where
  "DryWordsRelic = weaknessRelic ''Dry Words''
     [''dry'', ''arid'', ''dust'', ''sand'', ''desert'', ''parch'', ''thirst'', ''crack'',
      ''wilt'', ''drought'']"

definition SmartWordsRelic :: relic where
  "SmartWordsRelic = weaknessRelic ''Smart Words''
     [''bright'', ''sharp'', ''brainy'', ''witty'', ''wise'', ''savvy'', ''adept'', ''quick'',
      ''keen'', ''lucid'', ''smart'', ''erudite'', ''studious'']"

definition GrossWordsRelic :: relic where
  "GrossWordsRelic = weaknessRelic ''Gross Words''
     [''snot'', ''slime'', ''odor'', ''stink'', ''filth'', ''germ'', ''muck'', ''mold'',
      ''pus'', ''scum'', ''vomit'', ''garbage'']"

definition MuseumWordsRelic :: relic where
  "MuseumWordsRelic = weaknessRelic ''Museum Words''
     [''relic'', ''idol'', ''stone'', ''case'', ''docent'', ''label'', ''plaque'', ''room'',
      ''vault'', ''rope'', ''glass'', ''gallery'', ''artifact'']"

definition WindWordsRelic :: relic where
  "WindWordsRelic = weaknessRelic ''Wind Words''
     [''gust'', ''gale'', ''blow'', ''draft'', ''breeze'', ''swirl'', ''puff'', ''blast'',
      ''air'', ''wisp'', ''eddy'', ''cyclone'', ''tempest'']"

definition GardeningWordsRelic :: relic where
  "GardeningWordsRelic = weaknessRelic ''Gardening Words''
     [''seed'', ''root'', ''stem'', ''leaf'', ''weed'', ''soil'', ''grow'', ''prune'',
      ''water'', ''mulch'', ''compost'', ''garden'', ''plant'']"

text \<open>The relic The adds a word replacement, which no combinator of the manager calls.\<close>

definition TheRelic :: relic where
  "TheRelic = (Relic ''The'')\<lparr>wordList := [''the'']\<rparr>"

text \<open>
  The manager: the registry \<open>relics\<close> (name to relic) and, per side, the names activated,
  in the order of activation.
\<close>

record relicManager =
  relics :: "(string \<times> relic) list"
  activeRelics :: "player \<Rightarrow> string list"

definition getRelic :: "string \<Rightarrow> relicManager \<Rightarrow> relic option" where
  "getRelic n rm = map_of (relics rm) n"

definition registerRelic :: "relic \<Rightarrow> relicManager \<Rightarrow> relicManager" where
  "registerRelic r rm =
     (if getRelic (name r) rm = None then rm\<lparr>relics := relics rm @ [(name r, r)]\<rparr>
      else rm\<lparr>relics := map (\<lambda>(k, v). if k = name r then (k, r) else (k, v)) (relics rm)\<rparr>)"

definition activateRelic :: "string \<Rightarrow> player \<Rightarrow> relicManager \<Rightarrow> bool \<times> relicManager" where
  "activateRelic n playerNum rm =
     (case getRelic n rm of
        Some r \<Rightarrow>
          (True, rm\<lparr>activeRelics := (activeRelics rm)
                      (playerNum := (if n \<in> set (activeRelics rm playerNum)
                                        then activeRelics rm playerNum
                                        else activeRelics rm playerNum @ [n]))\<rparr>)
      | None \<Rightarrow> (False, rm))"

definition clearRelics :: "player \<Rightarrow> relicManager \<Rightarrow> relicManager" where
  "clearRelics playerNum rm = rm\<lparr>activeRelics := (activeRelics rm)(playerNum := [])\<rparr>"

definition getActiveRelics :: "player \<Rightarrow> relicManager \<Rightarrow> relic list" where
  "getActiveRelics playerNum rm =
     concat (map (\<lambda>n. case getRelic n rm of Some r \<Rightarrow> [r] | None \<Rightarrow> [])
                 (activeRelics rm playerNum))"

definition getAdditiveResult ::
  "(relic \<Rightarrow> string \<Rightarrow> rat) \<Rightarrow> player \<Rightarrow> string \<Rightarrow> relicManager \<Rightarrow> rat" where
  "getAdditiveResult method playerNum w rm =
     foldl (\<lambda>result r. result + method r w) 0 (getActiveRelics playerNum rm)"

definition getMultResult ::
  "(relic \<Rightarrow> string \<Rightarrow> rat) \<Rightarrow> player \<Rightarrow> string \<Rightarrow> relicManager \<Rightarrow> rat" where
  "getMultResult method playerNum w rm =
     foldl (\<lambda>result r. result * method r w) 1 (getActiveRelics playerNum rm)"

definition getListOfResults :: "(relic \<Rightarrow> 'a option) \<Rightarrow> player \<Rightarrow> relicManager \<Rightarrow> 'a list" where
  "getListOfResults method playerNum rm =
     concat (map (\<lambda>r. case method r of Some x \<Rightarrow> [x] | None \<Rightarrow> [])
                 (getActiveRelics playerNum rm))"

definition getMaxResult ::
  "(relic \<Rightarrow> string \<Rightarrow> rat) \<Rightarrow> player \<Rightarrow> string \<Rightarrow> relicManager \<Rightarrow> rat" where
  "getMaxResult method playerNum w rm =
     foldl (\<lambda>result r. max result (method r w)) 0 (getActiveRelics playerNum rm)"

definition getAnyTrueResult ::
  "(relic \<Rightarrow> string \<Rightarrow> bool) \<Rightarrow> player \<Rightarrow> string \<Rightarrow> relicManager \<Rightarrow> bool" where
  "getAnyTrueResult method playerNum w rm =
     list_ex (\<lambda>r. method r w) (getActiveRelics playerNum rm)"

text \<open>
  \<open>getRandomInactiveRelics\<close>: the registered relics that are not \<open>assignedOnly\<close> and not
  active for the side, in the order of registration, shuffled in place (for i from the last
  index down to 1, swap positions i and \<open>Math.floor(Math.random() * (i + 1))\<close>) and cut to
  the first \<open>count\<close>.
\<close>

fun shuffleFrom :: "nat \<Rightarrow> rng \<Rightarrow> 'a list \<Rightarrow> 'a list \<times> rng" where
  "shuffleFrom 0 g xs = (xs, g)"
| "shuffleFrom (Suc i) g xs =
     (let (j, g') = randomIndex (Suc i + 1) g
      in shuffleFrom i g' (xs[Suc i := xs ! j, j := xs ! Suc i]))"

definition getRandomInactiveRelics ::
  "nat \<Rightarrow> player \<Rightarrow> rng \<Rightarrow> relicManager \<Rightarrow> relic list \<times> rng" where
  "getRandomInactiveRelics count playerNum g rm =
     (let inactive = filter (\<lambda>r. \<not> assignedOnly r \<and> name r \<notin> set (activeRelics rm playerNum))
                            (map snd (relics rm));
          (shuffled, g') = shuffleFrom (length inactive - 1) g inactive
      in (take count shuffled, g'))"

text \<open>The manager after the registrations at the end of relics.js, no relic active.\<close>

definition registeredRelics :: relicManager where
  "registeredRelics =
     foldl (\<lambda>rm r. registerRelic r rm) \<lparr>relics = [], activeRelics = (\<lambda>p. [])\<rparr>
       [RockRelic, AlphaRelic, WormRelic, HissRelic, YolkRelic, StraightRelic, AlphabetRelic,
        ABCsRelic, TacocatRelic, TrebleCleftRelic, BombRelic,
        ColdWordsRelic, BugWordsRelic, CleanWordsRelic, DryWordsRelic, SmartWordsRelic,
        GrossWordsRelic, MuseumWordsRelic, WindWordsRelic, GardeningWordsRelic, TheRelic]"

section \<open>The dictionary (systems/dictionary.js)\<close>

text \<open>
  An entry is a word and its letter counts. The main list comes from a data file and is a
  parameter here.
\<close>

record entry =
  word :: string
  letters :: letterCounts

record dictionarySystem =
  mainDictionary :: "entry list"
  playerWords :: "player \<Rightarrow> entry list"

definition mainWordSet :: "dictionarySystem \<Rightarrow> string set" where
  "mainWordSet d = set (map (\<lambda>e. map toLowerCase (word e)) (mainDictionary d))"

definition wordExists :: "string \<Rightarrow> player option \<Rightarrow> dictionarySystem \<Rightarrow> bool" where
  "wordExists w playerNum d =
     (let lowerWord = map toLowerCase w
      in case playerNum of
           Some p \<Rightarrow>
             (if list_ex (\<lambda>e. map toLowerCase (word e) = lowerWord) (playerWords d p) then True
              else lowerWord \<in> mainWordSet d)
         | None \<Rightarrow> lowerWord \<in> mainWordSet d)"

definition getWordByRank :: "int \<Rightarrow> dictionarySystem \<Rightarrow> entry option" where
  "getWordByRank rank d =
     (if rank < 0 \<or> rank \<ge> int (length (mainDictionary d)) then None
      else Some (mainDictionary d ! nat rank))"

definition getSize :: "dictionarySystem \<Rightarrow> nat" where
  "getSize d = length (mainDictionary d)"

section \<open>The board (board.js)\<close>

text \<open>
  Canvas, assets, the enemy sprite and the drag manager are rendering and input; the saved
  turn-start snapshot is read by \<open>restoreTurnStartState\<close> only. The relic manager and the
  dictionary are module-level singletons in the source and parameters here.
\<close>

datatype phase = playing | end_turn | combat | post_combat | ai_turn | game_over

record board =
  currentPlayer :: player
  state :: phase
  playerHealth :: int
  playerMaxHealth :: int
  enemyHealth :: int
  enemyMaxHealth :: int
  mulliganCount :: int
  hasUsedMulligan :: bool
  playerTileSet :: tileSet
  enemyTileSet :: tileSet
  lanes :: "lane list"
  playerRack :: rack
  enemyRack :: rack
  laneTileCounts :: "nat list"

text \<open>
  \<open>fillRack\<close>: the loop over the required letters (\<open>currentLetters\<close> is read once, before
  the loop), then the loop that draws at random until the rack is full or a draw fails.
\<close>

fun fillRequired ::
  "char list \<Rightarrow> char list \<Rightarrow> rng \<Rightarrow> 'a container_scheme \<Rightarrow> tileSet
     \<Rightarrow> rng \<times> 'a container_scheme \<times> tileSet" where
  "fillRequired [] currentLetters g r ts = (g, r, ts)"
| "fillRequired (required # rest) currentLetters g r ts =
     (let l = toUpperCase required
      in if l \<notin> set currentLetters \<and> \<not> isFull r then
           (case drawTile (Some l) g ts of
              (Some t, g', ts') \<Rightarrow> fillRequired rest currentLetters g' (snd (addTile t r)) ts'
            | (None, g', ts') \<Rightarrow> fillRequired rest currentLetters g' r ts')
         else fillRequired rest currentLetters g r ts)"

function fillRandom ::
  "rng \<Rightarrow> 'a container_scheme \<Rightarrow> tileSet \<Rightarrow> rng \<times> 'a container_scheme \<times> tileSet" where
  "fillRandom g r ts =
     (if isFull r then (g, r, ts)
      else (let d = drawTile None g ts
            in case fst d of
                 None \<Rightarrow> (fst (snd d), r, snd (snd d))
               | Some t \<Rightarrow> fillRandom (fst (snd d)) (snd (addTile t r)) (snd (snd d))))"
  by pat_completeness auto
termination
  by (relation "measure (\<lambda>(g, r, ts). maxTiles r - length (tiles r))")
     (auto simp: isFull_def addTile_def)

declare fillRandom.simps [simp del]

definition fillRack ::
  "relicManager \<Rightarrow> rng \<Rightarrow> 'a container_scheme \<Rightarrow> tileSet \<Rightarrow> player
     \<Rightarrow> rng \<times> 'a container_scheme \<times> tileSet" where
  "fillRack rm g r ts playerNum =
     (let requiredLetters = getListOfResults getRequiredRackLetters playerNum rm;
          currentLetters = getLetters r;
          (g1, r1, ts1) = fillRequired requiredLetters currentLetters g r ts
      in fillRandom g1 r1 ts1)"

definition dealDamage :: "player \<Rightarrow> int \<Rightarrow> board \<Rightarrow> board" where
  "dealDamage target amount b =
     (if target = P1 then b\<lparr>playerHealth := max 0 (playerHealth b - amount)\<rparr>
      else b\<lparr>enemyHealth := max 0 (enemyHealth b - amount)\<rparr>)"

text \<open>
  \<open>processSpecialEffects(lane)\<close> changes the health fields of the board and the types of
  the lane's tiles; it returns both.
\<close>

definition processSpecialEffects :: "lane \<Rightarrow> board \<Rightarrow> lane \<times> board" where
  "processSpecialEffects l b =
     (let e = getSpecialEffects l;
          b1 = (if shield e > 0 \<and> currentPlayer b = P1
                then b\<lparr>playerMaxHealth := playerMaxHealth b + int (shield e),
                       playerHealth := playerHealth b + int (shield e)\<rparr>
                else b);
          b2 = (if heal e > 0 \<and> currentPlayer b1 = P1
                then b1\<lparr>playerHealth := min (playerHealth b1 + int (heal e)) (playerMaxHealth b1)\<rparr>
                else b1);
          b3 = (if meteor e > 0
                then (if currentPlayer b2 = P1 then dealDamage P2 (int (meteor e)) b2
                      else dealDamage P1 (int (meteor e)) b2)
                else b2)
      in (l\<lparr>tiles := map (\<lambda>t. if type t \<noteq> STEEL then t\<lparr>type := MAIN\<rparr> else t) (tiles l)\<rparr>, b3))"

text \<open>
  \<open>processCombat\<close>: the loop over the lanes adds each lane's damage to \<open>playerDamage\<close>
  or \<open>enemyDamage\<close>.
\<close>

definition combatLane :: "relicManager \<Rightarrow> int \<times> int \<Rightarrow> lane \<Rightarrow> int \<times> int" where
  "combatLane rm acc l =
     (let (playerDamage, enemyDamage) = acc;
          w = getWord l;
          baseDamage = calculateDamage l
      in if owner l = Some P1 \<and> baseDamage > 0 then
           (let mult = getMultResult getWordScoreMult P1 w rm;
                additive = getAdditiveResult getWordScoreAdditive P1 w rm;
                vulnMult = getMultResult getWordVulnerabilityMult P2 w rm
            in (playerDamage + \<lfloor>(of_nat baseDamage * mult + additive) * vulnMult\<rfloor>, enemyDamage))
         else if owner l = Some P2 \<and> baseDamage > 0 then
           (let mult = getMultResult getWordScoreMult P2 w rm;
                additive = getAdditiveResult getWordScoreAdditive P2 w rm
            in (playerDamage, enemyDamage + \<lfloor>of_nat baseDamage * mult + additive\<rfloor>))
         else (playerDamage, enemyDamage))"

definition combatTotals :: "relicManager \<Rightarrow> lane list \<Rightarrow> int \<times> int" where
  "combatTotals rm ls = foldl (combatLane rm) (0, 0) ls"

definition processCombat :: "relicManager \<Rightarrow> board \<Rightarrow> board" where
  "processCombat rm b =
     (let (playerDamage, enemyDamage) = combatTotals rm (lanes b);
          b1 = (if playerDamage > 0 then dealDamage P2 playerDamage b else b)
      in if enemyDamage > 0 then dealDamage P1 enemyDamage b1 else b1)"

definition mulligan :: "bool \<Rightarrow> relicManager \<Rightarrow> rng \<Rightarrow> board \<Rightarrow> rng \<times> board" where
  "mulligan fullMulligan rm g b =
     (if currentPlayer b \<noteq> P1 then (g, b)
      else
        let (removed, r1) = clear (playerRack b);
            ts1 = returnTiles removed (playerTileSet b);
            (g', r2, ts2) = fillRack rm g r1 ts1 P1;
            b1 = b\<lparr>playerRack := r2, playerTileSet := ts2\<rparr>
        in if \<not> fullMulligan
           then (g', b1\<lparr>mulliganCount := mulliganCount b1 - 1, hasUsedMulligan := True\<rparr>)
           else (g', b1))"

fun validateLoop ::
  "dictionarySystem \<Rightarrow> player \<Rightarrow> lane list \<Rightarrow> nat \<Rightarrow> nat list \<Rightarrow> nat list" where
  "validateLoop d p [] i invalid = invalid"
| "validateLoop d p (l # rest) i invalid =
     (if \<not> hasNewTiles l then validateLoop d p rest (Suc i) invalid
      else if length (getWord l) < MIN_WORD_LENGTH
        then validateLoop d p rest (Suc i) (invalid @ [i])
      else if \<not> wordExists (getWord l) (Some p) d
        then validateLoop d p rest (Suc i) (invalid @ [i])
      else validateLoop d p rest (Suc i) invalid)"

definition validateAllWords :: "dictionarySystem \<Rightarrow> board \<Rightarrow> nat list" where
  "validateAllWords d b = validateLoop d (currentPlayer b) (lanes b) 0 []"

text \<open>
  The loop of \<open>endTurn\<close> over the lanes: a lane with new tiles gets the acting side as
  owner and its special effects processed; every lane loses its temporary owner.
\<close>

fun claimLanes :: "lane list \<Rightarrow> board \<Rightarrow> lane list \<times> board" where
  "claimLanes [] b = ([], b)"
| "claimLanes (l # rest) b =
     (let (l1, b1) = (if hasNewTiles l
                      then processSpecialEffects (setOwner (Some (currentPlayer b)) l) b
                      else (l, b));
          (rest', b2) = claimLanes rest b1
      in (clearTemporaryOwner l1 # rest', b2))"

text \<open>
  \<open>endTurn\<close> returns its boolean, the tiles handed to \<open>animationManager.shake\<close> (each as
  lane index and position in the lane), the random source and the board.
\<close>

definition shakeTargets :: "board \<Rightarrow> nat list \<Rightarrow> (nat \<times> nat) list" where
  "shakeTargets b invalidLanes =
     concat (map (\<lambda>laneIndex. map (\<lambda>k. (laneIndex, k)) [0..<length (tiles (lanes b ! laneIndex))])
                 invalidLanes)"

definition endTurn ::
  "dictionarySystem \<Rightarrow> relicManager \<Rightarrow> rng \<Rightarrow> board \<Rightarrow> bool \<times> (nat \<times> nat) list \<times> rng \<times> board" where
  "endTurn d rm g b =
     (if state b \<noteq> playing then (False, [], g, b)
      else
        let invalidLanes = validateAllWords d b
        in if length invalidLanes > 0 then (False, shakeTargets b invalidLanes, g, b)
           else
             let (ls, b1) = claimLanes (lanes b) b;
                 b2 = b1\<lparr>lanes := ls\<rparr>;
                 (g', b3) = (if isFull (playerRack b2) \<and> currentPlayer b2 = P1
                             then mulligan True rm g b2
                             else (let (g1, r, ts) = fillRack rm g (playerRack b2) (playerTileSet b2) P1
                                   in (g1, b2\<lparr>playerRack := r, playerTileSet := ts\<rparr>)))
             in (True, [], g', b3\<lparr>state := end_turn\<rparr>))"

definition checkGameOver :: "board \<Rightarrow> string option" where
  "checkGameOver b =
     (if playerHealth b \<le> 0 then Some ''lose''
      else if enemyHealth b \<le> 0 then Some ''win''
      else None)"

text \<open>
  Lane shifting. Reading \<open>this.lanes[i]\<close> beyond the array gives undefined, and the method
  call on it throws a TypeError.
\<close>

datatype error = TypeError

definition moveLaneTiles :: "nat \<Rightarrow> nat \<Rightarrow> board \<Rightarrow> error + board" where
  "moveLaneTiles fromIndex toIndex b =
     (if fromIndex \<ge> length (lanes b) \<or> toIndex \<ge> length (lanes b) then Inl TypeError
      else
        let fromLane = lanes b ! fromIndex;
            ownr = owner fromLane;
            (moved, fromLane') = Lane_clear fromLane;
            ls1 = (lanes b)[fromIndex := fromLane'];
            toLane = foldl (\<lambda>l t. snd (addTile t l)) (ls1 ! toIndex) moved
        in Inr (b\<lparr>lanes := ls1[toIndex := setOwner ownr toLane]\<rparr>))"

definition shiftInto :: "nat \<Rightarrow> nat \<Rightarrow> board \<Rightarrow> error + board" where
  "shiftInto fromIndex toIndex b =
     (if toIndex \<ge> length (lanes b) then Inl TypeError
      else if \<not> isEmpty (lanes b ! toIndex) then Inr b
      else if fromIndex \<ge> length (lanes b) then Inl TypeError
      else if \<not> isEmpty (lanes b ! fromIndex) then moveLaneTiles fromIndex toIndex b
      else Inr b)"

definition shiftLanes :: "board \<Rightarrow> error + board" where
  "shiftLanes b =
     (case shiftInto 1 0 b of
        Inl e \<Rightarrow> Inl e
      | Inr b1 \<Rightarrow>
          (case shiftInto 2 1 b1 of
             Inl e \<Rightarrow> Inl e
           | Inr b2 \<Rightarrow> shiftInto 1 0 b2))"

section \<open>The opponent (systems/ai.js)\<close>

text \<open>
  \<open>CONFIG.DIFFICULTY\<close> in key order, each setting as (dictDivisor, tileProb);
  \<open>Object.values(CONFIG.DIFFICULTY)[difficulty - 1] || CONFIG.DIFFICULTY.MEDIUM\<close>.
\<close>

definition DIFFICULTY :: "(nat \<times> rat) list" where
  "DIFFICULTY = [(128, 3 / 10), (32, 35 / 100), (16, 4 / 10), (4, 45 / 100), (1, 1 / 2)]"

definition MEDIUM :: "nat \<times> rat" where
  "MEDIUM = (16, 4 / 10)"

definition diffSettings :: "int \<Rightarrow> nat \<times> rat" where
  "diffSettings difficulty =
     (if 1 \<le> difficulty \<and> difficulty \<le> 5 then DIFFICULTY ! nat (difficulty - 1) else MEDIUM)"

definition dictDivisor :: "nat \<times> rat \<Rightarrow> nat" where
  "dictDivisor s = fst s"

definition calculateDictLimit :: "int \<Rightarrow> dictionarySystem \<Rightarrow> nat" where
  "calculateDictLimit difficulty d = getSize d div dictDivisor (diffSettings difficulty)"

definition getLetterCounts :: "char list \<Rightarrow> letterCounts" where
  "getLetterCounts ls = foldl (\<lambda>counts l. increment (toLowerCase l) counts) [] ls"

definition canFormWord :: "letterCounts \<Rightarrow> letterCounts \<Rightarrow> bool" where
  "canFormWord wordLetters availableCounts =
     list_all (\<lambda>(l, n). \<not> countOf availableCounts l < n) wordLetters"

definition containsAllLetters :: "letterCounts \<Rightarrow> letterCounts \<Rightarrow> bool" where
  "containsAllLetters wordLetters requiredCounts =
     list_all (\<lambda>(l, n). \<not> countOf wordLetters l < n) requiredCounts"

text \<open>The test of one dictionary entry in the loop of \<open>findBestWord\<close>: true when no
  \<open>continue\<close> is taken.\<close>

definition accepts :: "char list \<Rightarrow> letterCounts \<Rightarrow> letterCounts \<Rightarrow> entry \<Rightarrow> bool" where
  "accepts requiredLetters requiredCounts availableCounts e =
     (if length (word e) \<le> length requiredLetters \<and> length requiredLetters > 0 then False
      else if length (word e) < MIN_WORD_LENGTH then False
      else if \<not> canFormWord (letters e) availableCounts then False
      else if \<not> containsAllLetters (letters e) requiredCounts then False
      else True)"

function searchFrom ::
  "dictionarySystem \<Rightarrow> nat \<Rightarrow> char list \<Rightarrow> letterCounts \<Rightarrow> letterCounts
     \<Rightarrow> nat \<Rightarrow> string option \<Rightarrow> nat \<Rightarrow> string option" where
  "searchFrom d dictLimit requiredLetters requiredCounts availableCounts i bestWord bestLength =
     (if i < dictLimit then
        (case getWordByRank (int i) d of
           None \<Rightarrow> bestWord
         | Some e \<Rightarrow>
             if accepts requiredLetters requiredCounts availableCounts e
                \<and> length (word e) > bestLength
             then searchFrom d dictLimit requiredLetters requiredCounts availableCounts
                    (Suc i) (Some (word e)) (length (word e))
             else searchFrom d dictLimit requiredLetters requiredCounts availableCounts
                    (Suc i) bestWord bestLength)
      else bestWord)"
  by pat_completeness auto
termination
  by (relation "measure (\<lambda>(d, dictLimit, rl, rc, ac, i, bw, bl). dictLimit - i)") auto

declare searchFrom.simps [simp del]

definition findBestWord ::
  "int \<Rightarrow> dictionarySystem \<Rightarrow> char list \<Rightarrow> char list \<Rightarrow> string option" where
  "findBestWord difficulty d allLetters requiredLetters =
     (let dictLimit = calculateDictLimit difficulty d;
          requiredCounts = getLetterCounts requiredLetters;
          availableCounts = getLetterCounts allLetters
      in searchFrom d dictLimit requiredLetters requiredCounts availableCounts 0 None 0)"

text \<open>
  \<open>playWord\<close>. \<open>usedLane\<close> and \<open>usedRack\<close> are the sets of indices marked true.
  For one letter of the word, \<open>useLaneLetter\<close> is the loop over \<open>laneLetters\<close> and
  \<open>useRackLetter\<close> the loop over \<open>rackLetters\<close>; each returns whether it found a tile.
\<close>

definition drawLetter :: "char \<Rightarrow> tileSet \<Rightarrow> tile option \<times> tileSet" where
  "drawLetter l ts = (case drawTile (Some l) [] ts of (t, g, ts') \<Rightarrow> (t, ts'))"

fun useLaneLetter ::
  "char \<Rightarrow> char list \<Rightarrow> nat list \<Rightarrow> nat set \<Rightarrow> lane \<Rightarrow> tileSet
     \<Rightarrow> bool \<times> nat set \<times> lane \<times> tileSet" where
  "useLaneLetter l laneLetters [] usedLane la ts = (False, usedLane, la, ts)"
| "useLaneLetter l laneLetters (i # js) usedLane la ts =
     (if i \<notin> usedLane \<and> laneLetters ! i = l then
        (case drawLetter l ts of
           (Some t, ts') \<Rightarrow> (True, insert i usedLane, snd (addTile t la), ts')
         | (None, ts') \<Rightarrow> useLaneLetter l laneLetters js usedLane la ts')
      else useLaneLetter l laneLetters js usedLane la ts)"

fun useRackLetter ::
  "char \<Rightarrow> char list \<Rightarrow> nat list \<Rightarrow> nat set \<Rightarrow> lane \<Rightarrow> rack
     \<Rightarrow> bool \<times> nat set \<times> lane \<times> rack" where
  "useRackLetter l rackLetters [] usedRack la r = (False, usedRack, la, r)"
| "useRackLetter l rackLetters (i # js) usedRack la r =
     (if i \<notin> usedRack \<and> rackLetters ! i = l then
        (case findIndex (\<lambda>(idx, t). letter t = l \<and> idx \<notin> usedRack) (enumerate 0 (tiles r)) of
           Some rackIndex \<Rightarrow>
             (case removeTile (int rackIndex) r of
                (Some t, r') \<Rightarrow> (True, insert i usedRack, snd (addTile t la), r')
              | (None, r') \<Rightarrow> (True, insert i usedRack, la, r'))
             \<comment> \<open>\<open>findIndex\<close> returns an index in range, so \<open>removeTile\<close> returns the tile\<close>
         | None \<Rightarrow> useRackLetter l rackLetters js usedRack la r)
      else useRackLetter l rackLetters js usedRack la r)"

fun buildWord ::
  "char list \<Rightarrow> char list \<Rightarrow> char list \<Rightarrow> nat set \<Rightarrow> nat set \<Rightarrow> lane \<Rightarrow> rack \<Rightarrow> tileSet
     \<Rightarrow> bool \<times> lane \<times> rack \<times> tileSet" where
  "buildWord [] laneLetters rackLetters usedLane usedRack la r ts = (True, la, r, ts)"
| "buildWord (l # rest) laneLetters rackLetters usedLane usedRack la r ts =
     (case useLaneLetter l laneLetters [0..<length laneLetters] usedLane la ts of
        (True, usedLane', la', ts') \<Rightarrow>
          buildWord rest laneLetters rackLetters usedLane' usedRack la' r ts'
      | (False, usedLane', la', ts') \<Rightarrow>
          (case useRackLetter l rackLetters [0..<length rackLetters] usedRack la' r of
             (True, usedRack', la'', r') \<Rightarrow>
               buildWord rest laneLetters rackLetters usedLane' usedRack' la'' r' ts'
           | (False, usedRack', la'', r') \<Rightarrow> (False, la'', r', ts')))"

definition playWord ::
  "nat \<Rightarrow> string \<Rightarrow> char list \<Rightarrow> char list \<Rightarrow> board \<Rightarrow> error + bool \<times> board" where
  "playWord laneIndex w laneLetters rackLetters b =
     (if laneIndex \<ge> length (lanes b) then Inl TypeError
      else
        let (oldTiles, la1) = Lane_clear (lanes b ! laneIndex);
            ts1 = returnTiles oldTiles (enemyTileSet b);
            (found, la2, r2, ts2) =
              buildWord (map toUpperCase w) laneLetters rackLetters {} {} la1 (enemyRack b) ts1
        in if \<not> found
           then Inr (False, b\<lparr>lanes := (lanes b)[laneIndex := la2], enemyRack := r2,
                               enemyTileSet := ts2\<rparr>)
           else Inr (True, b\<lparr>lanes := (lanes b)[laneIndex := setOwner (Some P2) la2],
                             enemyRack := r2, enemyTileSet := ts2\<rparr>))"

section \<open>Relics over a game (game.js, board.js)\<close>

text \<open>
  What the game controller and the board do to the relic manager. The controller keeps the
  cards of the relic selection screen, each bound to the relic it shows, and the relic of a
  pending reward (\<open>pendingRewards.relic\<close>); nothing else of its state reaches the manager.
\<close>

record game =
  manager :: relicManager
  relicCards :: "relic list"
  pendingRelic :: "string option"

text \<open>
  \<open>populateRelicOptions\<close> makes one card for each of the three relics drawn by
  \<open>getRandomInactiveRelics(3, 1)\<close>; a click on a card activates its relic for the player.
\<close>

definition populateRelicOptions :: "rng \<Rightarrow> game \<Rightarrow> game" where
  "populateRelicOptions g s = s\<lparr>relicCards := fst (getRandomInactiveRelics 3 P1 g (manager s))\<rparr>"

definition clickRelicCard :: "nat \<Rightarrow> game \<Rightarrow> game" where
  "clickRelicCard k s =
     (if k < length (relicCards s)
      then s\<lparr>manager := snd (activateRelic (name (relicCards s ! k)) P1 (manager s))\<rparr>
      else s)"

text \<open>
  \<open>showRewardScreen\<close> starts a new pending reward and, when \<open>Math.random() < 0.5\<close> (here
  \<open>coin\<close>), puts in it the name of the relic drawn by \<open>getRandomInactiveRelics(1, 1)\<close>, if
  there is one. \<open>claimRewards\<close> activates the pending relic for the player, when its name is
  a non-empty string, and drops the pending reward. The gold is left out.
\<close>

definition showRewardScreen :: "bool \<Rightarrow> rng \<Rightarrow> game \<Rightarrow> game" where
  "showRewardScreen coin g s =
     (if coin
      then (case fst (getRandomInactiveRelics 1 P1 g (manager s)) of
              [] \<Rightarrow> s\<lparr>pendingRelic := None\<rparr>
            | r # rest \<Rightarrow> s\<lparr>pendingRelic := Some (name r)\<rparr>)
      else s\<lparr>pendingRelic := None\<rparr>)"

definition claimRewards :: "game \<Rightarrow> game" where
  "claimRewards s =
     (case pendingRelic s of
        Some n \<Rightarrow>
          (if n \<noteq> [] then s\<lparr>manager := snd (activateRelic n P1 (manager s)), pendingRelic := None\<rparr>
           else s\<lparr>pendingRelic := None\<rparr>)
      | None \<Rightarrow> s)"

text \<open>
  Of \<open>Board.setupBattle\<close>, the part on the relic manager: the enemy's relics are cleared and
  the relics listed for the new enemy (\<open>ENEMY_DATA[enemyType].relics\<close>, any list of names
  here) are activated for the enemy.
\<close>

definition setupBattle :: "string list \<Rightarrow> game \<Rightarrow> game" where
  "setupBattle enemyRelics s =
     s\<lparr>manager := foldl (\<lambda>rm relicName. snd (activateRelic relicName P2 rm))
                         (clearRelics P2 (manager s)) enemyRelics\<rparr>"

text \<open>
  A game is a sequence of these events from the state in which the module relics.js leaves
  the manager; no other call of \<open>registerRelic\<close>, \<open>activateRelic\<close>, \<open>deactivateRelic\<close> or
  \<open>clearRelics\<close> exists.
\<close>

datatype gameEvent =
    PopulateRelicOptions rng
  | ClickRelicCard nat
  | ShowRewardScreen bool rng
  | ClaimRewards
  | SetupBattle "string list"

fun gameStep :: "game \<Rightarrow> gameEvent \<Rightarrow> game" where
  "gameStep s (PopulateRelicOptions g) = populateRelicOptions g s"
| "gameStep s (ClickRelicCard k) = clickRelicCard k s"
| "gameStep s (ShowRewardScreen coin g) = showRewardScreen coin g s"
| "gameStep s ClaimRewards = claimRewards s"
| "gameStep s (SetupBattle enemyRelics) = setupBattle enemyRelics s"

definition newGame :: game where
  "newGame = \<lparr>manager = registeredRelics, relicCards = [], pendingRelic = None\<rparr>"

definition playGame :: "gameEvent list \<Rightarrow> game" where
  "playGame evs = foldl gameStep newGame evs"

section \<open>Initial states and sample positions\<close>

text \<open>The board as its constructor leaves it, for given tile pools.\<close>

definition Board :: "tileSet \<Rightarrow> tileSet \<Rightarrow> board" where
  "Board ps es =
     \<lparr>currentPlayer = P1, state = playing,
      playerHealth = STARTING_HEALTH, playerMaxHealth = STARTING_HEALTH,
      enemyHealth = STARTING_HEALTH, enemyMaxHealth = STARTING_HEALTH,
      mulliganCount = MULLIGAN_COUNT, hasUsedMulligan = False,
      playerTileSet = ps, enemyTileSet = es,
      lanes = map Lane [0..<LANE_COUNT],
      playerRack = Rack P1, enemyRack = Rack P2, laneTileCounts = []\<rparr>"

definition plainPool :: "string \<Rightarrow> tileSet" where
  "plainPool w = \<lparr>persistentTiles = map Plain w, remainingTiles = map Plain w\<rparr>"

definition tilesOf :: "tileType \<Rightarrow> string \<Rightarrow> tile list" where
  "tilesOf ty w = map (\<lambda>c. Tile c ty) w"

text \<open>A lane holding a word, with an owner and a turn-start tile count.\<close>

definition laneWith :: "nat \<Rightarrow> tileType \<Rightarrow> string \<Rightarrow> player option \<Rightarrow> nat \<Rightarrow> lane" where
  "laneWith i ty w ownr n = (Lane i)\<lparr>tiles := tilesOf ty w, owner := ownr, startTurnTileCount := n\<rparr>"

definition sampleDictionary :: dictionarySystem where
  "sampleDictionary =
     \<lparr>mainDictionary =
        map (\<lambda>w. \<lparr>word = w, letters = getLetterCounts w\<rparr>)
            [''at'', ''cat'', ''cats'', ''cast'', ''ant'', ''coats''],
      playerWords = (\<lambda>p. [])\<rparr>"

section \<open>Damage as the relic combinators describe it\<close>

text \<open>
  The product and the sum over a side's active relics, and the damage of one lane for
  each owner, written with \<open>prod_list\<close> and \<open>sum_list\<close>.
\<close>

definition scoreMult :: "relicManager \<Rightarrow> player \<Rightarrow> string \<Rightarrow> rat" where
  "scoreMult rm p w = prod_list (map (\<lambda>r. getWordScoreMult r w) (getActiveRelics p rm))"

definition scoreAdditive :: "relicManager \<Rightarrow> player \<Rightarrow> string \<Rightarrow> rat" where
  "scoreAdditive rm p w = sum_list (map (\<lambda>r. getWordScoreAdditive r w) (getActiveRelics p rm))"

definition vulnerabilityMult :: "relicManager \<Rightarrow> player \<Rightarrow> string \<Rightarrow> rat" where
  "vulnerabilityMult rm p w =
     prod_list (map (\<lambda>r. getWordVulnerabilityMult r w) (getActiveRelics p rm))"

definition playerLaneDamage :: "relicManager \<Rightarrow> lane \<Rightarrow> int" where
  "playerLaneDamage rm l =
     (if owner l = Some P1 \<and> length (tiles l) > 0
      then \<lfloor>(of_nat (length (tiles l)) * scoreMult rm P1 (getWord l)
               + scoreAdditive rm P1 (getWord l)) * vulnerabilityMult rm P2 (getWord l)\<rfloor>
      else 0)"

definition enemyLaneDamage :: "relicManager \<Rightarrow> lane \<Rightarrow> int" where
  "enemyLaneDamage rm l =
     (if owner l = Some P2 \<and> length (tiles l) > 0
      then \<lfloor>of_nat (length (tiles l)) * scoreMult rm P2 (getWord l)
              + scoreAdditive rm P2 (getWord l)\<rfloor>
      else 0)"

text \<open>
  The damage of a lane for the side that owns it, in one formula for both sides: the
  owner's multipliers and additives, then the vulnerability multiplier of the opposing
  side, floored.
\<close>

definition opponent :: "player \<Rightarrow> player" where
  "opponent p = (case p of P1 \<Rightarrow> P2 | P2 \<Rightarrow> P1)"

definition laneDamage :: "relicManager \<Rightarrow> player \<Rightarrow> lane \<Rightarrow> int" where
  "laneDamage rm p l =
     (if owner l = Some p \<and> length (tiles l) > 0
      then \<lfloor>(of_nat (length (tiles l)) * scoreMult rm p (getWord l)
               + scoreAdditive rm p (getWord l))
              * vulnerabilityMult rm (opponent p) (getWord l)\<rfloor>
      else 0)"

text \<open>
  What every state of a game satisfies: the registry is the one relics.js registers, the
  relics active for the player are not \<open>assignedOnly\<close>, and the cards and the pending reward
  name relics that are not \<open>assignedOnly\<close>.
\<close>

definition selectableOnly :: "relicManager \<Rightarrow> player \<Rightarrow> bool" where
  "selectableOnly rm p = list_all (\<lambda>r. \<not> assignedOnly r) (getActiveRelics p rm)"

definition selectableName :: "string \<Rightarrow> bool" where
  "selectableName n = (case getRelic n registeredRelics of Some r \<Rightarrow> \<not> assignedOnly r | None \<Rightarrow> True)"

definition gameInvariant :: "game \<Rightarrow> bool" where
  "gameInvariant s \<longleftrightarrow>
     relics (manager s) = relics registeredRelics
     \<and> selectableOnly (manager s) P1
     \<and> list_all (\<lambda>r. selectableName (name r)) (relicCards s)
     \<and> (case pendingRelic s of Some n \<Rightarrow> selectableName n | None \<Rightarrow> True)"

text \<open>A sequence of the events that change health: a combat resolution, the special
  effects of a lane, a direct call of \<open>dealDamage\<close>.\<close>

datatype healthEvent = CombatResolution | SpecialEffects lane | Damage player int

fun applyEvent :: "relicManager \<Rightarrow> healthEvent \<Rightarrow> board \<Rightarrow> board" where
  "applyEvent rm CombatResolution b = processCombat rm b"
| "applyEvent rm (SpecialEffects l) b = snd (processSpecialEffects l b)"
| "applyEvent rm (Damage target amount) b = dealDamage target amount b"

fun applyEvents :: "relicManager \<Rightarrow> healthEvent list \<Rightarrow> board \<Rightarrow> board" where
  "applyEvents rm [] b = b"
| "applyEvents rm (e # es) b = applyEvents rm es (applyEvent rm e b)"

section \<open>Predicates of the turn and of the word search\<close>

text \<open>
  A lane fails the validation of a turn when it gained tiles this turn and its word is
  shorter than two letters or is not a word of the acting side's dictionary.
\<close>

definition offendingLane :: "dictionarySystem \<Rightarrow> player \<Rightarrow> lane \<Rightarrow> bool" where
  "offendingLane d p l =
     (length (tiles l) > startTurnTileCount l
      \<and> (length (getWord l) < 2 \<or> \<not> wordExists (getWord l) (Some p) d))"

text \<open>
  A dictionary entry is well formed when its letter counts are those of its word: every
  listed count is the number of occurrences of the letter in the lower-cased word, and
  every letter of the word is listed.
\<close>

definition wellFormedEntry :: "entry \<Rightarrow> bool" where
  "wellFormedEntry e =
     ((\<forall>(l, n) \<in> set (letters e). n = count_list (map toLowerCase (word e)) l)
      \<and> (\<forall>l \<in> set (map toLowerCase (word e)). l \<in> fst ` set (letters e)))"

text \<open>
  A candidate of the word search, in the words of its description: (a) strictly longer
  than the required letters when there are any, (b) at least two letters long, (c) made of
  available letters, each used at most as often as it is available, (d) holding every
  required letter at least as often as it is required. Letters are compared in lower case.
\<close>

definition candidate :: "char list \<Rightarrow> char list \<Rightarrow> entry \<Rightarrow> bool" where
  "candidate allLetters requiredLetters e =
     ((length requiredLetters \<noteq> 0 \<longrightarrow> length (word e) > length requiredLetters)
      \<and> length (word e) \<ge> 2
      \<and> (\<forall>c \<in> set (map toLowerCase (word e)).
            count_list (map toLowerCase (word e)) c \<le> count_list (map toLowerCase allLetters) c)
      \<and> (\<forall>c \<in> set (map toLowerCase requiredLetters).
            count_list (map toLowerCase requiredLetters) c
              \<le> count_list (map toLowerCase (word e)) c))"

text \<open>
  \<open>firstLongest ok es n result\<close>: among the first \<open>n\<close> entries of \<open>es\<close>, \<open>result\<close> is the
  word of the longest entry that satisfies \<open>ok\<close>, the earliest one among those of that
  length; it is null when no entry satisfies \<open>ok\<close>.
\<close>

definition firstLongest :: "(entry \<Rightarrow> bool) \<Rightarrow> entry list \<Rightarrow> nat \<Rightarrow> string option \<Rightarrow> bool" where
  "firstLongest ok es n result =
     (case result of
        None \<Rightarrow> (\<forall>j < n. \<not> ok (es ! j))
      | Some w \<Rightarrow>
          (\<exists>k < n. ok (es ! k) \<and> word (es ! k) = w
             \<and> (\<forall>j < n. ok (es ! j) \<longrightarrow> length (word (es ! j)) \<le> length w)
             \<and> (\<forall>j < k. ok (es ! j) \<longrightarrow> length (word (es ! j)) < length w)))"

section \<open>Container capacity\<close>

lemma applyOp_maxTiles: "maxTiles (applyOp x c) = maxTiles c"
  by (cases x) (simp_all add: addTile_def insertTileAt_def removeTile_def clear_def Let_def)

lemma applyOp_capacity:
  "length (tiles c) \<le> maxTiles c \<Longrightarrow> length (tiles (applyOp x c)) \<le> maxTiles c"
  by (cases x)
     (auto simp: addTile_def insertTileAt_def removeTile_def clear_def Let_def
                 splice_insert_def splice_remove_def)

lemma applyOps_capacity:
  "length (tiles c) \<le> maxTiles c \<Longrightarrow>
   length (tiles (applyOps ops c)) \<le> maxTiles c \<and> maxTiles (applyOps ops c) = maxTiles c"
proof (induction ops arbitrary: c)
  case Nil
  then show ?case by simp
next
  case (Cons x xs)
  from Cons.prems have "length (tiles (applyOp x c)) \<le> maxTiles (applyOp x c)"
    by (simp add: applyOp_capacity applyOp_maxTiles)
  from Cons.IH [OF this] show ?case
    by (simp add: applyOp_maxTiles)
qed

lemma full_rejects:
  "isFull c \<Longrightarrow> addTile t c = (False, c) \<and> insertTileAt t i c = (False, c)"
  by (simp add: isFull_def addTile_def insertTileAt_def)

lemma insertTileAt_clamped:
  assumes "\<not> isFull c"
  shows "\<exists>k. k \<le> length (tiles c)
            \<and> int k = max 0 (min i (int (length (tiles c))))
            \<and> fst (insertTileAt t i c)
            \<and> tiles (snd (insertTileAt t i c)) = take k (tiles c) @ t # drop k (tiles c)
            \<and> length (tiles (snd (insertTileAt t i c))) = Suc (length (tiles c))
            \<and> tiles (snd (insertTileAt t i c)) ! k = t"
proof -
  let ?k = "nat (max 0 (min i (int (length (tiles c)))))"
  have k: "?k \<le> length (tiles c)" by simp
  have "(take ?k (tiles c) @ t # drop ?k (tiles c)) ! ?k = t"
    using k by (simp add: nth_append)
  with assms k show ?thesis
    by (intro exI [of _ ?k])
       (simp add: isFull_def insertTileAt_def Let_def splice_insert_def)
qed

lemma removeTile_dense:
  assumes "0 \<le> i" and "i < int (length (tiles c))"
  shows "fst (removeTile i c) = Some (tiles c ! nat i)
         \<and> length (tiles (snd (removeTile i c))) = length (tiles c) - 1
         \<and> (\<forall>j < length (tiles c) - 1.
               tiles (snd (removeTile i c)) ! j
                 = (if j < nat i then tiles c ! j else tiles c ! Suc j))"
proof -
  let ?n = "nat i"
  have n: "?n < length (tiles c)" using assms by simp
  have t: "tiles (snd (removeTile i c)) = take ?n (tiles c) @ drop (Suc ?n) (tiles c)"
    using assms by (simp add: removeTile_def splice_remove_def)
  have "\<forall>j < length (tiles c) - 1.
          (take ?n (tiles c) @ drop (Suc ?n) (tiles c)) ! j
            = (if j < ?n then tiles c ! j else tiles c ! Suc j)"
    using n by (auto simp: nth_append min_def)
  with t n assms show ?thesis
    by (simp add: removeTile_def)
qed

lemma removeTile_out_of_range:
  "i < 0 \<or> int (length (tiles c)) \<le> i \<Longrightarrow> removeTile i c = (None, c)"
  by (auto simp: removeTile_def)

text \<open>
  Claim C7. Starting from a new container, or from any container within its capacity,
  every sequence of addTile,
  insertTileAt, removeTile and clear keeps the tile count at or below maxTiles (which no
  operation changes); on a full container addTile and insertTileAt return false and leave
  it as it was; on a container that is not full insertTileAt succeeds and puts the tile at
  the index clamped into [0, length], keeping the tiles before and after it in order;
  removeTile at an index in range returns that tile and leaves the remaining tiles
  contiguous (every index below the new length holds the tile that was there, or its right
  neighbour from the removed index on), and out of range it returns null and changes
  nothing.
\<close>

theorem container_capacity_invariant:
  "length (tiles (applyOps ops (TileContainer m))) \<le> m
   \<and> (length (tiles c) \<le> maxTiles c \<longrightarrow>
      length (tiles (applyOps ops c)) \<le> maxTiles (applyOps ops c)
      \<and> maxTiles (applyOps ops c) = maxTiles c)
   \<and> (isFull c \<longrightarrow> addTile t c = (False, c) \<and> insertTileAt t i c = (False, c))
   \<and> (\<not> isFull c \<longrightarrow>
        (\<exists>k. k \<le> length (tiles c)
            \<and> int k = max 0 (min i (int (length (tiles c))))
            \<and> fst (insertTileAt t i c)
            \<and> tiles (snd (insertTileAt t i c)) = take k (tiles c) @ t # drop k (tiles c)
            \<and> length (tiles (snd (insertTileAt t i c))) = Suc (length (tiles c))
            \<and> tiles (snd (insertTileAt t i c)) ! k = t))
   \<and> (0 \<le> i \<and> i < int (length (tiles c)) \<longrightarrow>
        fst (removeTile i c) = Some (tiles c ! nat i)
        \<and> length (tiles (snd (removeTile i c))) = length (tiles c) - 1
        \<and> (\<forall>j < length (tiles c) - 1.
              tiles (snd (removeTile i c)) ! j
                = (if j < nat i then tiles c ! j else tiles c ! Suc j)))
   \<and> (i < 0 \<or> int (length (tiles c)) \<le> i \<longrightarrow> removeTile i c = (None, c))"
proof (intro conjI impI)
  show "length (tiles (applyOps ops (TileContainer m))) \<le> m"
    using applyOps_capacity [of "TileContainer m" ops] by (simp add: TileContainer_def)
next
  assume "length (tiles c) \<le> maxTiles c"
  then show "length (tiles (applyOps ops c)) \<le> maxTiles (applyOps ops c)"
    and "maxTiles (applyOps ops c) = maxTiles c"
    using applyOps_capacity [of c ops] by simp_all
next
  assume "isFull c"
  then show "addTile t c = (False, c)" and "insertTileAt t i c = (False, c)"
    using full_rejects [of c t i] by simp_all
next
  assume "\<not> isFull c"
  then show "\<exists>k. k \<le> length (tiles c)
            \<and> int k = max 0 (min i (int (length (tiles c))))
            \<and> fst (insertTileAt t i c)
            \<and> tiles (snd (insertTileAt t i c)) = take k (tiles c) @ t # drop k (tiles c)
            \<and> length (tiles (snd (insertTileAt t i c))) = Suc (length (tiles c))
            \<and> tiles (snd (insertTileAt t i c)) ! k = t"
    by (rule insertTileAt_clamped)
next
  assume "0 \<le> i \<and> i < int (length (tiles c))"
  then show "fst (removeTile i c) = Some (tiles c ! nat i)"
    and "length (tiles (snd (removeTile i c))) = length (tiles c) - 1"
    and "\<forall>j < length (tiles c) - 1.
              tiles (snd (removeTile i c)) ! j
                = (if j < nat i then tiles c ! j else tiles c ! Suc j)"
    using removeTile_dense [of i c] by simp_all
next
  assume "i < 0 \<or> int (length (tiles c)) \<le> i"
  then show "removeTile i c = (None, c)"
    by (rule removeTile_out_of_range)
qed

theorem container_capacity_invariant_witness:
  "length (tiles (TileContainer 2\<lparr>tiles := [Tile CHR ''a'' MAIN]\<rparr>)) \<le> 2
   \<and> \<not> isFull (TileContainer 2\<lparr>tiles := [Tile CHR ''a'' MAIN]\<rparr>)
   \<and> isFull (TileContainer 1\<lparr>tiles := [Tile CHR ''a'' MAIN]\<rparr>)
   \<and> length (tiles (applyOps
          [AddTile (Tile CHR ''b'' MAIN), AddTile (Tile CHR ''c'' MAIN),
           InsertTileAt (Tile CHR ''d'' ICE) 5, RemoveTile 0, Clear,
           AddTile (Tile CHR ''e'' MAIN)]
          (TileContainer 2\<lparr>tiles := [Tile CHR ''a'' MAIN]\<rparr>))) \<le> 2
   \<and> insertTileAt (Tile CHR ''d'' ICE) 7 (TileContainer 1\<lparr>tiles := [Tile CHR ''a'' MAIN]\<rparr>)
       = (False, TileContainer 1\<lparr>tiles := [Tile CHR ''a'' MAIN]\<rparr>)
   \<and> tiles (snd (insertTileAt (Tile CHR ''d'' ICE) 0
                   (TileContainer 2\<lparr>tiles := [Tile CHR ''a'' MAIN]\<rparr>)))
       = [Tile CHR ''d'' ICE, Tile CHR ''a'' MAIN]
   \<and> fst (removeTile 0 (TileContainer 2\<lparr>tiles := [Tile CHR ''a'' MAIN]\<rparr>))
       = Some (Tile CHR ''a'' MAIN)
   \<and> removeTile 7 (TileContainer 1\<lparr>tiles := [Tile CHR ''a'' MAIN]\<rparr>)
       = (None, TileContainer 1\<lparr>tiles := [Tile CHR ''a'' MAIN]\<rparr>)"
  using container_capacity_invariant
          [of "[AddTile (Tile CHR ''b'' MAIN), AddTile (Tile CHR ''c'' MAIN),
                InsertTileAt (Tile CHR ''d'' ICE) 5, RemoveTile 0, Clear,
                AddTile (Tile CHR ''e'' MAIN)]"
              2 "TileContainer 2\<lparr>tiles := [Tile CHR ''a'' MAIN]\<rparr>"
              "Tile CHR ''d'' ICE" 0]
        container_capacity_invariant
          [of "[]" 1 "TileContainer 1\<lparr>tiles := [Tile CHR ''a'' MAIN]\<rparr>"
              "Tile CHR ''d'' ICE" 7]
  by (simp add: TileContainer_def isFull_def)

section \<open>Lane shifting\<close>

lemma foldl_addTile:
  "foldl (\<lambda>l t. snd (addTile t l)) l ts
     = l\<lparr>tiles := tiles l @ take (maxTiles l - length (tiles l)) ts\<rparr>"
proof (induction ts arbitrary: l)
  case Nil
  then show ?case by simp
next
  case (Cons t ts)
  show ?case
  proof (cases "maxTiles l \<le> length (tiles l)")
    case True
    then have "snd (addTile t l) = l" by (simp add: addTile_def)
    with True show ?thesis by (simp add: Cons.IH)
  next
    case False
    then have a: "snd (addTile t l) = l\<lparr>tiles := tiles l @ [t]\<rparr>"
      by (simp add: addTile_def)
    from False have "maxTiles l - length (tiles l) = Suc (maxTiles l - Suc (length (tiles l)))"
      by simp
    then show ?thesis by (simp add: a Cons.IH)
  qed
qed

lemma moveLaneTiles_result:
  assumes "fromIndex < length (lanes b)" and "toIndex < length (lanes b)"
    and "fromIndex \<noteq> toIndex"
  shows "moveLaneTiles fromIndex toIndex b =
           Inr (b\<lparr>lanes := (lanes b)
                  [fromIndex := (lanes b ! fromIndex)
                      \<lparr>tiles := [], gapIndex := -1, owner := None, temporaryOwner := None\<rparr>,
                   toIndex := setOwner (owner (lanes b ! fromIndex))
                      ((lanes b ! toIndex)
                         \<lparr>tiles := tiles (lanes b ! toIndex)
                             @ take (maxTiles (lanes b ! toIndex) - length (tiles (lanes b ! toIndex)))
                                    (tiles (lanes b ! fromIndex))\<rparr>)]\<rparr>)"
  using assms
  by (simp add: moveLaneTiles_def Lane_clear_def clear_def foldl_addTile Let_def)

lemma three_lanes:
  assumes "length (ls :: lane list) = 3"
  obtains l0 l1 l2 where "ls = [l0, l1, l2]"
  using assms by (auto simp: numeral_3_eq_3 length_Suc_conv)

lemma shiftLanes_three:
  assumes ls: "lanes b = [l0, l1, l2]"
    and cap: "\<forall>l \<in> set (lanes b). maxTiles l = LANE_MAX_TILES \<and> length (tiles l) \<le> maxTiles l"
  shows "\<exists>b'. shiftLanes b = Inr b' \<and> length (lanes b') = 3
           \<and> sum_list (map (\<lambda>l. length (tiles l)) (lanes b'))
               = sum_list (map (\<lambda>l. length (tiles l)) (lanes b))
           \<and> ((\<exists>l \<in> set (lanes b'). tiles l \<noteq> []) \<longrightarrow> tiles (lanes b' ! 0) \<noteq> [])"
  using assms
  by (cases "tiles l0 = []"; cases "tiles l1 = []"; cases "tiles l2 = []")
     (simp_all add: shiftLanes_def shiftInto_def isEmpty_def moveLaneTiles_result setOwner_def)

text \<open>
  Claim C5. On a board of three lanes, each built with the lane capacity and within it,
  shiftLanes returns (its three checks are straight-line code), keeps the number of lanes
  and the total number of tiles, and afterwards lane 0 holds a tile whenever any lane does.
  Each move into an empty lane carries the source's letters and its owner to the destination
  and leaves the source empty.
\<close>

theorem shiftLanes_compacts:
  assumes "length (lanes b) = 3"
    and "\<forall>l \<in> set (lanes b). maxTiles l = LANE_MAX_TILES \<and> length (tiles l) \<le> maxTiles l"
  shows "(\<exists>b'. shiftLanes b = Inr b' \<and> length (lanes b') = 3
            \<and> sum_list (map (\<lambda>l. length (tiles l)) (lanes b'))
                = sum_list (map (\<lambda>l. length (tiles l)) (lanes b))
            \<and> ((\<exists>l \<in> set (lanes b'). tiles l \<noteq> []) \<longrightarrow> tiles (lanes b' ! 0) \<noteq> []))
         \<and> (\<forall>fromIndex toIndex. fromIndex < 3 \<and> toIndex < 3 \<and> fromIndex \<noteq> toIndex
                \<and> isEmpty (lanes b ! toIndex) \<longrightarrow>
              (\<exists>b1. moveLaneTiles fromIndex toIndex b = Inr b1
                 \<and> getWord (lanes b1 ! toIndex) = getWord (lanes b ! fromIndex)
                 \<and> owner (lanes b1 ! toIndex) = owner (lanes b ! fromIndex)
                 \<and> isEmpty (lanes b1 ! fromIndex)))"
proof (intro conjI allI impI)
  from assms(1) obtain l0 l1 l2 where "lanes b = [l0, l1, l2]"
    by (rule three_lanes)
  from shiftLanes_three [OF this assms(2)]
  show "\<exists>b'. shiftLanes b = Inr b' \<and> length (lanes b') = 3
            \<and> sum_list (map (\<lambda>l. length (tiles l)) (lanes b'))
                = sum_list (map (\<lambda>l. length (tiles l)) (lanes b))
            \<and> ((\<exists>l \<in> set (lanes b'). tiles l \<noteq> []) \<longrightarrow> tiles (lanes b' ! 0) \<noteq> [])" .
next
  fix fromIndex toIndex
  assume a: "fromIndex < 3 \<and> toIndex < 3 \<and> fromIndex \<noteq> toIndex \<and> isEmpty (lanes b ! toIndex)"
  with assms(1) have r: "fromIndex < length (lanes b)" "toIndex < length (lanes b)"
    "fromIndex \<noteq> toIndex" by simp_all
  from r(1,2) assms(2) have c: "maxTiles (lanes b ! toIndex) = LANE_MAX_TILES"
     "length (tiles (lanes b ! fromIndex)) \<le> LANE_MAX_TILES"
    by (metis nth_mem)+
  from a c r show "\<exists>b1. moveLaneTiles fromIndex toIndex b = Inr b1
                 \<and> getWord (lanes b1 ! toIndex) = getWord (lanes b ! fromIndex)
                 \<and> owner (lanes b1 ! toIndex) = owner (lanes b ! fromIndex)
                 \<and> isEmpty (lanes b1 ! fromIndex)"
    by (simp add: moveLaneTiles_result [OF r] isEmpty_def setOwner_def getWord_def comp_def)
qed

theorem shiftLanes_compacts_witness:
  "length (lanes ((Board (plainPool []) (plainPool []))
             \<lparr>lanes := [Lane 0, Lane 1, laneWith 2 STEEL ''ANT'' (Some P2) 3]\<rparr>)) = 3
   \<and> list_all (\<lambda>l. maxTiles l = LANE_MAX_TILES \<and> length (tiles l) \<le> maxTiles l)
        (lanes ((Board (plainPool []) (plainPool []))
             \<lparr>lanes := [Lane 0, Lane 1, laneWith 2 STEEL ''ANT'' (Some P2) 3]\<rparr>))
   \<and> (\<exists>b'. shiftLanes ((Board (plainPool []) (plainPool []))
             \<lparr>lanes := [Lane 0, Lane 1, laneWith 2 STEEL ''ANT'' (Some P2) 3]\<rparr>) = Inr b'
          \<and> getWord (lanes b' ! 0) = ''ANT'' \<and> owner (lanes b' ! 0) = Some P2
          \<and> isEmpty (lanes b' ! 1) \<and> isEmpty (lanes b' ! 2) \<and> owner (lanes b' ! 2) = None)"
proof -
  let ?b = "(Board (plainPool []) (plainPool []))
             \<lparr>lanes := [Lane 0, Lane 1, laneWith 2 STEEL ''ANT'' (Some P2) 3]\<rparr>"
  have h1: "length (lanes ?b) = 3" by simp
  have h2: "\<forall>l \<in> set (lanes ?b). maxTiles l = LANE_MAX_TILES \<and> length (tiles l) \<le> maxTiles l"
    by (simp add: Lane_def laneWith_def tilesOf_def LANE_MAX_TILES_def)
  have e: "shiftLanes ?b = Inr (?b\<lparr>lanes := [laneWith 0 STEEL ''ANT'' (Some P2) 0, Lane 1,
                                         (Lane 2)\<lparr>startTurnTileCount := 3\<rparr>]\<rparr>)"
    by (simp add: shiftLanes_def shiftInto_def isEmpty_def moveLaneTiles_def Lane_clear_def
          clear_def Lane_def laneWith_def tilesOf_def addTile_def setOwner_def Tile_def
          LANE_MAX_TILES_def)
  from shiftLanes_compacts [OF h1 h2] h1 h2 e show ?thesis
    by (simp add: isEmpty_def Lane_def laneWith_def tilesOf_def getWord_def Tile_def
          toUpperCase_def upperLetters_def lowerLetters_def list_all_iff)
qed

section \<open>Clearing a lane resets its ownership\<close>

lemma addTile_owner:
  "owner (snd (addTile t (la::lane))) = owner la
   \<and> temporaryOwner (snd (addTile t la)) = temporaryOwner la"
  by (simp add: addTile_def)

lemma useLaneLetter_owner:
  "useLaneLetter l ll idxs ul la ts = (f, ul', la', ts') \<Longrightarrow>
   owner la' = owner la \<and> temporaryOwner la' = temporaryOwner la"
proof (induction idxs arbitrary: ts)
  case Nil
  then show ?case by simp
next
  case (Cons i idxs)
  then show ?case
    by (auto simp: addTile_owner split: if_splits prod.splits option.splits)
qed

lemma useRackLetter_owner:
  "useRackLetter l rl idxs ur la r = (f, ur', la', r') \<Longrightarrow>
   owner la' = owner la \<and> temporaryOwner la' = temporaryOwner la"
proof (induction idxs)
  case Nil
  then show ?case by simp
next
  case (Cons i idxs)
  then show ?case
    by (auto simp: addTile_owner split: if_splits prod.splits option.splits)
qed

lemma buildWord_owner:
  "buildWord w ll rl ul ur la r ts = (f, la', r', ts') \<Longrightarrow>
   owner la' = owner la \<and> temporaryOwner la' = temporaryOwner la"
proof (induction w arbitrary: ul ur la r ts)
  case Nil
  then show ?case by simp
next
  case (Cons c w)
  obtain f1 ul1 la1 ts1 where
    u: "useLaneLetter c ll [0..<length ll] ul la ts = (f1, ul1, la1, ts1)"
    by (metis prod_cases4)
  note o1 = useLaneLetter_owner [OF u]
  show ?case
  proof (cases f1)
    case True
    with u Cons.prems have "buildWord w ll rl ul1 ur la1 r ts1 = (f, la', r', ts')"
      by simp
    from Cons.IH [OF this] o1 show ?thesis by simp
  next
    case False
    obtain f2 ur2 la2 r2 where
      v: "useRackLetter c rl [0..<length rl] ur la1 r = (f2, ur2, la2, r2)"
      by (metis prod_cases4)
    note o2 = useRackLetter_owner [OF v]
    show ?thesis
    proof (cases f2)
      case True
      with False u v Cons.prems have "buildWord w ll rl ul1 ur2 la2 r2 ts1 = (f, la', r', ts')"
        by simp
      from Cons.IH [OF this] o1 o2 show ?thesis by simp
    next
      case f2: False
      with False u v Cons.prems have "la' = la2" by simp
      with o1 o2 show ?thesis by simp
    qed
  qed
qed

lemma Lane_clear_result:
  "Lane_clear l = (tiles l, l\<lparr>tiles := [], gapIndex := -1, owner := None, temporaryOwner := None\<rparr>)"
  by (simp add: Lane_clear_def clear_def)

lemma playWord_owner:
  assumes "i < length (lanes b)"
  shows "\<exists>ok b'. playWord i w ll rl b = Inr (ok, b')
           \<and> length (lanes b') = length (lanes b)
           \<and> owner (lanes b' ! i) = (if ok then Some P2 else None)
           \<and> temporaryOwner (lanes b' ! i) = None"
proof -
  obtain f la2 r2 ts2 where
    bw: "buildWord (map toUpperCase w) ll rl {} {} (snd (Lane_clear (lanes b ! i))) (enemyRack b)
           (returnTiles (fst (Lane_clear (lanes b ! i))) (enemyTileSet b)) = (f, la2, r2, ts2)"
    by (metis prod_cases4)
  from buildWord_owner [OF bw] have o: "owner la2 = None" "temporaryOwner la2 = None"
    by (simp_all add: Lane_clear_result)
  show ?thesis
    using assms bw o
    by (cases f) (auto simp: playWord_def Let_def split_beta setOwner_def)
qed

text \<open>
  Claim C9. Lane.clear returns all the tiles of the lane and leaves it empty with owner and
  temporary owner both null. The source lane of moveLaneTiles is left exactly in that
  cleared state. playWord builds its word on the cleared lane, so the lane ends with owner 2
  when the word was placed and with no owner when it was not: never with the owner it had
  before unless the opponent sets it again; its temporary owner is null in both cases.
\<close>

theorem Lane_clear_resets_ownership:
  "fst (Lane_clear l) = tiles l
   \<and> tiles (snd (Lane_clear l)) = []
   \<and> owner (snd (Lane_clear l)) = None
   \<and> temporaryOwner (snd (Lane_clear l)) = None
   \<and> (fromIndex < length (lanes b) \<and> toIndex < length (lanes b) \<and> fromIndex \<noteq> toIndex \<longrightarrow>
        (\<exists>b1. moveLaneTiles fromIndex toIndex b = Inr b1
           \<and> lanes b1 ! fromIndex = snd (Lane_clear (lanes b ! fromIndex))))
   \<and> (laneIndex < length (lanes b) \<longrightarrow>
        (\<exists>ok la r ts b'.
           playWord laneIndex w laneLetters rackLetters b = Inr (ok, b')
           \<and> buildWord (map toUpperCase w) laneLetters rackLetters {} {}
                (snd (Lane_clear (lanes b ! laneIndex))) (enemyRack b)
                (returnTiles (fst (Lane_clear (lanes b ! laneIndex))) (enemyTileSet b))
              = (ok, la, r, ts)
           \<and> owner (lanes b' ! laneIndex) = (if ok then Some P2 else None)
           \<and> temporaryOwner (lanes b' ! laneIndex) = None))"
proof (intro conjI impI)
  show "fst (Lane_clear l) = tiles l" "tiles (snd (Lane_clear l)) = []"
    "owner (snd (Lane_clear l)) = None" "temporaryOwner (snd (Lane_clear l)) = None"
    by (simp_all add: Lane_clear_result)
next
  assume "fromIndex < length (lanes b) \<and> toIndex < length (lanes b) \<and> fromIndex \<noteq> toIndex"
  then have r: "fromIndex < length (lanes b)" "toIndex < length (lanes b)"
    "fromIndex \<noteq> toIndex" by simp_all
  show "\<exists>b1. moveLaneTiles fromIndex toIndex b = Inr b1
           \<and> lanes b1 ! fromIndex = snd (Lane_clear (lanes b ! fromIndex))"
    using r by (simp add: moveLaneTiles_result [OF r] Lane_clear_result)
next
  assume i: "laneIndex < length (lanes b)"
  obtain f la2 r2 ts2 where
    bw: "buildWord (map toUpperCase w) laneLetters rackLetters {} {}
           (snd (Lane_clear (lanes b ! laneIndex))) (enemyRack b)
           (returnTiles (fst (Lane_clear (lanes b ! laneIndex))) (enemyTileSet b))
         = (f, la2, r2, ts2)"
    by (metis prod_cases4)
  from buildWord_owner [OF bw] have o: "owner la2 = None" "temporaryOwner la2 = None"
    by (simp_all add: Lane_clear_result)
  show "\<exists>ok la r ts b'.
           playWord laneIndex w laneLetters rackLetters b = Inr (ok, b')
           \<and> buildWord (map toUpperCase w) laneLetters rackLetters {} {}
                (snd (Lane_clear (lanes b ! laneIndex))) (enemyRack b)
                (returnTiles (fst (Lane_clear (lanes b ! laneIndex))) (enemyTileSet b))
              = (ok, la, r, ts)
           \<and> owner (lanes b' ! laneIndex) = (if ok then Some P2 else None)
           \<and> temporaryOwner (lanes b' ! laneIndex) = None"
    using i bw o
    by (cases f) (auto simp: playWord_def Let_def split_beta setOwner_def)
qed

theorem Lane_clear_resets_ownership_witness:
  "(1::nat) < length (lanes ((Board (plainPool []) (plainPool []))
        \<lparr>lanes := [Lane 0, laneWith 1 STEEL ''CAT'' (Some P1) 3, Lane 2]\<rparr>))
   \<and> (0::nat) < length (lanes ((Board (plainPool []) (plainPool []))
        \<lparr>lanes := [Lane 0, laneWith 1 STEEL ''CAT'' (Some P1) 3, Lane 2]\<rparr>))
   \<and> owner (snd (Lane_clear (laneWith 1 STEEL ''CAT'' (Some P1) 3))) = None
   \<and> (\<exists>b1. moveLaneTiles 1 0 ((Board (plainPool []) (plainPool []))
              \<lparr>lanes := [Lane 0, laneWith 1 STEEL ''CAT'' (Some P1) 3, Lane 2]\<rparr>) = Inr b1
          \<and> owner (lanes b1 ! 1) = None \<and> tiles (lanes b1 ! 1) = [])
   \<and> (\<exists>ok b'. playWord 1 ''cats'' ''CAT'' ''S'' ((Board (plainPool []) (plainPool []))
              \<lparr>lanes := [Lane 0, laneWith 1 STEEL ''CAT'' (Some P1) 3, Lane 2]\<rparr>) = Inr (ok, b')
          \<and> owner (lanes b' ! 1) \<noteq> Some P1)"
proof -
  let ?b = "(Board (plainPool []) (plainPool []))
              \<lparr>lanes := [Lane 0, laneWith 1 STEEL ''CAT'' (Some P1) 3, Lane 2]\<rparr>"
  have h: "(1::nat) < length (lanes ?b)" "(0::nat) < length (lanes ?b)" by simp_all
  from Lane_clear_resets_ownership
         [of "laneWith 1 STEEL ''CAT'' (Some P1) 3" 1 ?b 0 1 "''cats''" "''CAT''" "''S''"] h
  show ?thesis by auto
qed

section \<open>Combat damage\<close>

lemma foldl_mult: "foldl (\<lambda>res r. res * f r) (a::rat) rs = a * prod_list (map f rs)"
  by (induction rs arbitrary: a) (simp_all add: mult.assoc)

lemma foldl_add: "foldl (\<lambda>res r. res + f r) (a::rat) rs = a + sum_list (map f rs)"
  by (induction rs arbitrary: a) (simp_all add: add.assoc)

lemma getMultResult_scoreMult: "getMultResult getWordScoreMult p w rm = scoreMult rm p w"
  by (simp add: getMultResult_def scoreMult_def foldl_mult)

lemma getMultResult_vulnerabilityMult:
  "getMultResult getWordVulnerabilityMult p w rm = vulnerabilityMult rm p w"
  by (simp add: getMultResult_def vulnerabilityMult_def foldl_mult)

lemma getAdditiveResult_scoreAdditive:
  "getAdditiveResult getWordScoreAdditive p w rm = scoreAdditive rm p w"
  by (simp add: getAdditiveResult_def scoreAdditive_def foldl_add)

lemma calculateDamage_owned: "owner l \<noteq> None \<Longrightarrow> calculateDamage l = length (tiles l)"
  by (auto simp: calculateDamage_def getEffectiveOwner_def)

lemma combatLane_spec:
  "combatLane rm (pd, ed) l = (pd + playerLaneDamage rm l, ed + enemyLaneDamage rm l)"
  by (cases "owner l")
     (auto simp: combatLane_def playerLaneDamage_def enemyLaneDamage_def Let_def
                 calculateDamage_def getEffectiveOwner_def
                 getMultResult_scoreMult getMultResult_vulnerabilityMult
                 getAdditiveResult_scoreAdditive)

lemma foldl_combatLane:
  "foldl (combatLane rm) (pd, ed) ls
     = (pd + sum_list (map (playerLaneDamage rm) ls), ed + sum_list (map (enemyLaneDamage rm) ls))"
  by (induction ls arbitrary: pd ed) (simp_all add: combatLane_spec)

lemma combatTotals_spec:
  "combatTotals rm ls
     = (sum_list (map (playerLaneDamage rm) ls), sum_list (map (enemyLaneDamage rm) ls))"
  by (simp add: combatTotals_def foldl_combatLane)

lemma processCombat_spec:
  "processCombat rm b =
     (let pd = sum_list (map (playerLaneDamage rm) (lanes b));
          ed = sum_list (map (enemyLaneDamage rm) (lanes b))
      in b\<lparr>enemyHealth := (if pd > 0 then max 0 (enemyHealth b - pd) else enemyHealth b),
           playerHealth := (if ed > 0 then max 0 (playerHealth b - ed) else playerHealth b)\<rparr>)"
  by (simp add: processCombat_def combatTotals_spec dealDamage_def Let_def)

section \<open>Health is never negative\<close>

lemma dealDamage_keeps_health:
  "0 \<le> playerHealth b \<Longrightarrow> 0 \<le> enemyHealth b \<Longrightarrow>
   0 \<le> playerHealth (dealDamage t a b) \<and> 0 \<le> enemyHealth (dealDamage t a b)
   \<and> playerMaxHealth (dealDamage t a b) = playerMaxHealth b"
  by (simp add: dealDamage_def)

lemma processCombat_keeps_health:
  "0 \<le> playerHealth b \<Longrightarrow> 0 \<le> enemyHealth b \<Longrightarrow>
   0 \<le> playerHealth (processCombat rm b) \<and> 0 \<le> enemyHealth (processCombat rm b)
   \<and> playerMaxHealth (processCombat rm b) = playerMaxHealth b"
  by (simp add: processCombat_spec Let_def)

lemma processSpecialEffects_keeps_health:
  "0 \<le> playerHealth b \<Longrightarrow> 0 \<le> enemyHealth b \<Longrightarrow> 0 \<le> playerMaxHealth b \<Longrightarrow>
   0 \<le> playerHealth (snd (processSpecialEffects l b))
   \<and> 0 \<le> enemyHealth (snd (processSpecialEffects l b))
   \<and> 0 \<le> playerMaxHealth (snd (processSpecialEffects l b))"
  by (simp add: processSpecialEffects_def dealDamage_def Let_def)

lemma applyEvent_keeps_health:
  "0 \<le> playerHealth b \<Longrightarrow> 0 \<le> enemyHealth b \<Longrightarrow> 0 \<le> playerMaxHealth b \<Longrightarrow>
   0 \<le> playerHealth (applyEvent rm e b) \<and> 0 \<le> enemyHealth (applyEvent rm e b)
   \<and> 0 \<le> playerMaxHealth (applyEvent rm e b)"
  by (cases e)
     (simp_all add: dealDamage_keeps_health processCombat_keeps_health
                    processSpecialEffects_keeps_health)

lemma applyEvents_keep_health:
  "0 \<le> playerHealth b \<Longrightarrow> 0 \<le> enemyHealth b \<Longrightarrow> 0 \<le> playerMaxHealth b \<Longrightarrow>
   0 \<le> playerHealth (applyEvents rm es b) \<and> 0 \<le> enemyHealth (applyEvents rm es b)"
proof (induction es arbitrary: b)
  case Nil
  then show ?case by simp
next
  case (Cons e es)
  from applyEvent_keeps_health [OF Cons.prems, of rm e] Cons.IH [of "applyEvent rm e b"]
  show ?case by simp
qed

text \<open>
  Claim C10. dealDamage sets the health of its target to max(0, health - amount), which
  is never negative, and leaves the other side's health alone. From a board whose two health
  pools and the player's maximum health are not negative, any sequence of combat
  resolutions, special effects of lanes (shield, heal and meteor) and direct damages leaves
  both playerHealth and enemyHealth greater than or equal to zero.
\<close>

theorem health_never_negative:
  "playerHealth (dealDamage P1 amount b) = max 0 (playerHealth b - amount)
   \<and> enemyHealth (dealDamage P2 amount b) = max 0 (enemyHealth b - amount)
   \<and> 0 \<le> playerHealth (dealDamage P1 amount b)
   \<and> 0 \<le> enemyHealth (dealDamage P2 amount b)
   \<and> enemyHealth (dealDamage P1 amount b) = enemyHealth b
   \<and> playerHealth (dealDamage P2 amount b) = playerHealth b
   \<and> (0 \<le> playerHealth b \<and> 0 \<le> enemyHealth b \<and> 0 \<le> playerMaxHealth b \<longrightarrow>
        0 \<le> playerHealth (applyEvents rm es b) \<and> 0 \<le> enemyHealth (applyEvents rm es b))"
proof (intro conjI impI)
  assume "0 \<le> playerHealth b \<and> 0 \<le> enemyHealth b \<and> 0 \<le> playerMaxHealth b"
  then show "0 \<le> playerHealth (applyEvents rm es b)" "0 \<le> enemyHealth (applyEvents rm es b)"
    using applyEvents_keep_health [of b rm es] by simp_all
qed (simp_all add: dealDamage_def)

theorem health_never_negative_witness:
  "0 \<le> playerHealth (Board (plainPool []) (plainPool []))
   \<and> 0 \<le> enemyHealth (Board (plainPool []) (plainPool []))
   \<and> 0 \<le> playerMaxHealth (Board (plainPool []) (plainPool []))
   \<and> enemyHealth (dealDamage P2 45 (Board (plainPool []) (plainPool []))) = 0
   \<and> 0 \<le> playerHealth (applyEvents registeredRelics
            [Damage P1 17, SpecialEffects (laneWith 0 GOLD ''ZAP'' (Some P1) 0),
             CombatResolution, Damage P1 40]
            (Board (plainPool []) (plainPool [])))
   \<and> 0 \<le> enemyHealth (applyEvents registeredRelics
            [Damage P1 17, SpecialEffects (laneWith 0 GOLD ''ZAP'' (Some P1) 0),
             CombatResolution, Damage P1 40]
            (Board (plainPool []) (plainPool [])))"
proof -
  let ?b = "Board (plainPool []) (plainPool [])"
  have h: "0 \<le> playerHealth ?b \<and> 0 \<le> enemyHealth ?b \<and> 0 \<le> playerMaxHealth ?b"
    by (simp add: Board_def STARTING_HEALTH_def)
  have e: "enemyHealth ?b = 30" by (simp add: Board_def STARTING_HEALTH_def)
  from health_never_negative
         [of 45 ?b registeredRelics
             "[Damage P1 17, SpecialEffects (laneWith 0 GOLD ''ZAP'' (Some P1) 0),
               CombatResolution, Damage P1 40]"] h e
  show ?thesis by simp
qed

section \<open>The relics of a game\<close>

text \<open>The registry: each relic under its own name, the names distinct.\<close>

lemma registered_relics_list:
  "map snd (relics registeredRelics) =
     [RockRelic, AlphaRelic, WormRelic, HissRelic, YolkRelic, StraightRelic, AlphabetRelic,
      ABCsRelic, TacocatRelic, TrebleCleftRelic, BombRelic,
      ColdWordsRelic, BugWordsRelic, CleanWordsRelic, DryWordsRelic, SmartWordsRelic,
      GrossWordsRelic, MuseumWordsRelic, WindWordsRelic, GardeningWordsRelic, TheRelic]"
  by (simp add: registeredRelics_def registerRelic_def getRelic_def
        RockRelic_def AlphaRelic_def WormRelic_def HissRelic_def YolkRelic_def
        StraightRelic_def AlphabetRelic_def ABCsRelic_def TacocatRelic_def
        TrebleCleftRelic_def BombRelic_def ColdWordsRelic_def BugWordsRelic_def
        CleanWordsRelic_def DryWordsRelic_def SmartWordsRelic_def GrossWordsRelic_def
        MuseumWordsRelic_def WindWordsRelic_def GardeningWordsRelic_def TheRelic_def
        weaknessRelic_def Relic_def)

lemma registered_relics_names:
  "map fst (relics registeredRelics) = map name (map snd (relics registeredRelics))"
  by (simp add: registeredRelics_def registerRelic_def getRelic_def
        RockRelic_def AlphaRelic_def WormRelic_def HissRelic_def YolkRelic_def
        StraightRelic_def AlphabetRelic_def ABCsRelic_def TacocatRelic_def
        TrebleCleftRelic_def BombRelic_def ColdWordsRelic_def BugWordsRelic_def
        CleanWordsRelic_def DryWordsRelic_def SmartWordsRelic_def GrossWordsRelic_def
        MuseumWordsRelic_def WindWordsRelic_def GardeningWordsRelic_def TheRelic_def
        weaknessRelic_def Relic_def)

lemma registered_relics_distinct: "distinct (map fst (relics registeredRelics))"
  by (simp add: registeredRelics_def registerRelic_def getRelic_def
        RockRelic_def AlphaRelic_def WormRelic_def HissRelic_def YolkRelic_def
        StraightRelic_def AlphabetRelic_def ABCsRelic_def TacocatRelic_def
        TrebleCleftRelic_def BombRelic_def ColdWordsRelic_def BugWordsRelic_def
        CleanWordsRelic_def DryWordsRelic_def SmartWordsRelic_def GrossWordsRelic_def
        MuseumWordsRelic_def WindWordsRelic_def GardeningWordsRelic_def TheRelic_def
        weaknessRelic_def Relic_def)

lemma registered_selectable_vulnerability:
  "list_all (\<lambda>r. assignedOnly r \<or> getWordVulnerabilityMult r w = 1)
     (map snd (relics registeredRelics))"
  unfolding registered_relics_list
  by (simp add: 
        RockRelic_def AlphaRelic_def WormRelic_def HissRelic_def YolkRelic_def
        StraightRelic_def AlphabetRelic_def ABCsRelic_def TacocatRelic_def
        TrebleCleftRelic_def BombRelic_def ColdWordsRelic_def BugWordsRelic_def
        CleanWordsRelic_def DryWordsRelic_def SmartWordsRelic_def GrossWordsRelic_def
        MuseumWordsRelic_def WindWordsRelic_def GardeningWordsRelic_def TheRelic_def
        weaknessRelic_def Relic_def)

text \<open>Activating and clearing change the active names of one side only.\<close>

lemma relics_activateRelic: "relics (snd (activateRelic n p rm)) = relics rm"
  by (simp add: activateRelic_def split: option.splits)

lemma relics_clearRelics: "relics (clearRelics p rm) = relics rm"
  by (simp add: clearRelics_def)

lemma activeRelics_activateRelic_other:
  "p \<noteq> q \<Longrightarrow> activeRelics (snd (activateRelic n p rm)) q = activeRelics rm q"
  by (simp add: activateRelic_def split: option.splits)

lemma activeRelics_clearRelics_other:
  "p \<noteq> q \<Longrightarrow> activeRelics (clearRelics p rm) q = activeRelics rm q"
  by (simp add: clearRelics_def)

lemma getActiveRelics_cong:
  "relics rm' = relics rm \<Longrightarrow> activeRelics rm' p = activeRelics rm p
   \<Longrightarrow> getActiveRelics p rm' = getActiveRelics p rm"
  by (simp add: getActiveRelics_def getRelic_def)

lemma getActiveRelics_activateRelic:
  "getActiveRelics p (snd (activateRelic n p rm)) =
     (case getRelic n rm of
        Some r \<Rightarrow> if n \<in> set (activeRelics rm p) then getActiveRelics p rm
                  else getActiveRelics p rm @ [r]
      | None \<Rightarrow> getActiveRelics p rm)"
proof (cases "map_of (relics rm) n")
  case None
  then show ?thesis by (simp add: activateRelic_def getRelic_def)
next
  case (Some r)
  then show ?thesis
    by (simp add: activateRelic_def getActiveRelics_def getRelic_def)
qed

lemma selectableOnly_activateRelic:
  assumes "selectableOnly rm p" and "\<And>r. getRelic n rm = Some r \<Longrightarrow> \<not> assignedOnly r"
  shows "selectableOnly (snd (activateRelic n p rm)) p"
proof (cases "getRelic n rm")
  case None
  with assms(1) show ?thesis
    by (simp add: selectableOnly_def getActiveRelics_activateRelic)
next
  case (Some r)
  from assms(2) [OF Some] have "\<not> assignedOnly r" .
  with assms(1) Some show ?thesis
    by (simp add: selectableOnly_def getActiveRelics_activateRelic)
qed

lemma selectableOnly_other:
  "relics rm' = relics rm \<Longrightarrow> activeRelics rm' p = activeRelics rm p
   \<Longrightarrow> selectableOnly rm' p = selectableOnly rm p"
  using getActiveRelics_cong [of rm' rm p] by (simp add: selectableOnly_def)

text \<open>The shuffle permutes; every relic offered is a registered one that is not
  \<open>assignedOnly\<close>.\<close>

lemma set_shuffleFrom:
  "i < length xs \<Longrightarrow> set (fst (shuffleFrom i g xs)) = set xs"
proof (induction i arbitrary: g xs)
  case 0
  then show ?case by simp
next
  case (Suc i)
  obtain j g' where r: "randomIndex (Suc i + 1) g = (j, g')"
    by (cases "randomIndex (Suc i + 1) g")
  have "fst (randomIndex (Suc i + 1) g) < Suc i + 1" by (cases g) simp_all
  with r have "j < Suc i + 1" by simp
  with Suc.prems have j: "j < length xs" by simp
  let ?ys = "xs[Suc i := xs ! j, j := xs ! Suc i]"
  from Suc.prems j have s: "set ?ys = set xs" by (simp add: set_swap)
  from Suc.prems have "i < length ?ys" by simp
  from Suc.IH [OF this, of g'] s r show ?case by simp
qed

lemma set_getRandomInactiveRelics:
  "set (fst (getRandomInactiveRelics count p g rm))
     \<subseteq> {r \<in> snd ` set (relics rm). \<not> assignedOnly r}"
proof -
  let ?inactive = "filter (\<lambda>r. \<not> assignedOnly r \<and> name r \<notin> set (activeRelics rm p))
                            (map snd (relics rm))"
  have s: "set (fst (shuffleFrom (length ?inactive - 1) g ?inactive)) = set ?inactive"
  proof (cases "?inactive = []")
    case True
    then show ?thesis by simp
  next
    case False
    then have "0 < length ?inactive" using length_greater_0_conv [of ?inactive] by blast
    then have "length ?inactive - 1 < length ?inactive" by arith
    then show ?thesis by (rule set_shuffleFrom)
  qed
  have "set (fst (getRandomInactiveRelics count p g rm))
          \<subseteq> set (fst (shuffleFrom (length ?inactive - 1) g ?inactive))"
    unfolding getRandomInactiveRelics_def Let_def
    by (cases "shuffleFrom (length ?inactive - 1) g ?inactive") (auto dest: in_set_takeD)
  with s show ?thesis by auto
qed

lemma registered_getRelic:
  assumes "r \<in> snd ` set (relics registeredRelics)"
  shows "getRelic (name r) registeredRelics = Some r"
proof -
  from assms obtain k where m: "(k, r) \<in> set (relics registeredRelics)" by auto
  from registered_relics_names
  have "\<forall>x \<in> set (relics registeredRelics). fst x = name (snd x)"
    by (simp add: map_eq_conv)
  with m have "k = name r" by auto
  with m registered_relics_distinct show ?thesis
    by (simp add: getRelic_def)
qed

lemma offered_selectableName:
  assumes "relics rm = relics registeredRelics"
    and "r \<in> set (fst (getRandomInactiveRelics count p g rm))"
  shows "selectableName (name r)"
proof -
  from assms set_getRandomInactiveRelics [of count p g rm]
  have r: "r \<in> snd ` set (relics registeredRelics)" and a: "\<not> assignedOnly r" by auto
  from registered_getRelic [OF r] a show ?thesis by (simp add: selectableName_def)
qed

lemma activate_selectableName:
  assumes "relics rm = relics registeredRelics" and "selectableOnly rm P1" and "selectableName n"
  shows "selectableOnly (snd (activateRelic n P1 rm)) P1"
proof (rule selectableOnly_activateRelic [OF assms(2)])
  fix r assume "getRelic n rm = Some r"
  with assms(1) have "getRelic n registeredRelics = Some r" by (simp add: getRelic_def)
  with assms(3) show "\<not> assignedOnly r" by (simp add: selectableName_def)
qed

lemma foldl_activate_enemy:
  "relics (foldl (\<lambda>rm relicName. snd (activateRelic relicName P2 rm)) rm ns) = relics rm
   \<and> activeRelics (foldl (\<lambda>rm relicName. snd (activateRelic relicName P2 rm)) rm ns) P1
       = activeRelics rm P1"
  by (induction ns arbitrary: rm) (simp_all add: relics_activateRelic activeRelics_activateRelic_other)

lemma activeRelics_registerRelic: "activeRelics (registerRelic r rm) = activeRelics rm"
  by (simp add: registerRelic_def)

lemma activeRelics_foldl_registerRelic:
  "activeRelics (foldl (\<lambda>rm r. registerRelic r rm) rm rs) = activeRelics rm"
  by (induction rs arbitrary: rm) (simp_all add: activeRelics_registerRelic)

lemma activeRelics_registeredRelics: "activeRelics registeredRelics p = []"
  unfolding registeredRelics_def by (simp only: activeRelics_foldl_registerRelic) simp

lemma gameInvariant_newGame: "gameInvariant newGame"
  by (simp add: gameInvariant_def newGame_def selectableOnly_def getActiveRelics_def
        activeRelics_registeredRelics)

lemma gameInvariant_step:
  assumes "gameInvariant s"
  shows "gameInvariant (gameStep s e)"
proof (cases e)
  case (PopulateRelicOptions g)
  from assms have r: "relics (manager s) = relics registeredRelics"
    by (simp add: gameInvariant_def)
  have "list_all (\<lambda>r. selectableName (name r)) (fst (getRandomInactiveRelics 3 P1 g (manager s)))"
    unfolding list_all_iff using offered_selectableName [OF r] by blast
  with assms PopulateRelicOptions show ?thesis
    by (simp add: gameInvariant_def populateRelicOptions_def)
next
  case (ClickRelicCard k)
  show ?thesis
  proof (cases "k < length (relicCards s)")
    case True
    from assms have r: "relics (manager s) = relics registeredRelics"
      and so: "selectableOnly (manager s) P1"
      and c: "list_all (\<lambda>r. selectableName (name r)) (relicCards s)"
      by (simp_all add: gameInvariant_def)
    from c True have "selectableName (name (relicCards s ! k))"
      by (simp add: list_all_length)
    from activate_selectableName [OF r so this] assms True ClickRelicCard show ?thesis
      by (simp add: gameInvariant_def clickRelicCard_def relics_activateRelic)
  next
    case False
    with assms ClickRelicCard show ?thesis by (simp add: clickRelicCard_def)
  qed
next
  case (ShowRewardScreen coin g)
  from assms have r: "relics (manager s) = relics registeredRelics"
    by (simp add: gameInvariant_def)
  show ?thesis
  proof (cases "fst (getRandomInactiveRelics 1 P1 g (manager s))")
    case Nil
    with assms ShowRewardScreen show ?thesis
      by (simp add: gameInvariant_def showRewardScreen_def)
  next
    case (Cons x rest)
    then have "x \<in> set (fst (getRandomInactiveRelics 1 P1 g (manager s)))" by simp
    from offered_selectableName [OF r this] assms ShowRewardScreen Cons show ?thesis
      by (simp add: gameInvariant_def showRewardScreen_def)
  qed
next
  case ClaimRewards
  show ?thesis
  proof (cases "pendingRelic s")
    case None
    with assms ClaimRewards show ?thesis by (simp add: claimRewards_def)
  next
    case (Some n)
    from assms have r: "relics (manager s) = relics registeredRelics"
      and so: "selectableOnly (manager s) P1"
      and c: "list_all (\<lambda>r. selectableName (name r)) (relicCards s)"
      by (simp_all add: gameInvariant_def)
    from assms Some have "selectableName n" by (simp add: gameInvariant_def)
    from activate_selectableName [OF r so this] r so c ClaimRewards Some show ?thesis
      by (simp add: gameInvariant_def claimRewards_def relics_activateRelic)
  qed
next
  case (SetupBattle enemyRelics)
  let ?rm = "foldl (\<lambda>rm relicName. snd (activateRelic relicName P2 rm))
                         (clearRelics P2 (manager s)) enemyRelics"
  from foldl_activate_enemy [of "clearRelics P2 (manager s)" enemyRelics]
  have r: "relics ?rm = relics (manager s)" and a: "activeRelics ?rm P1 = activeRelics (manager s) P1"
    by (simp_all add: relics_clearRelics activeRelics_clearRelics_other)
  from selectableOnly_other [OF r a] r assms SetupBattle show ?thesis
    by (simp add: gameInvariant_def setupBattle_def)
qed

lemma gameInvariant_foldl: "gameInvariant s \<Longrightarrow> gameInvariant (foldl gameStep s evs)"
  by (induction evs arbitrary: s) (simp_all add: gameInvariant_step)

lemma gameInvariant_playGame: "gameInvariant (playGame evs)"
  unfolding playGame_def by (rule gameInvariant_foldl [OF gameInvariant_newGame])

lemma active_relic_registered:
  "r \<in> set (getActiveRelics p rm) \<Longrightarrow> r \<in> snd ` set (relics rm)"
proof -
  assume "r \<in> set (getActiveRelics p rm)"
  then obtain n where "map_of (relics rm) n = Some r"
    by (auto simp add: getActiveRelics_def getRelic_def split: option.splits)
  then have "(n, r) \<in> set (relics rm)" by (rule map_of_SomeD)
  then show ?thesis by force
qed

lemma prod_list_ones: "(\<And>x. x \<in> set xs \<Longrightarrow> f x = (1::rat)) \<Longrightarrow> prod_list (map f xs) = 1"
  by (induction xs) simp_all

lemma vulnerabilityMult_selectable:
  assumes "relics rm = relics registeredRelics" and "selectableOnly rm p"
  shows "vulnerabilityMult rm p w = 1"
  unfolding vulnerabilityMult_def
proof (rule prod_list_ones)
  fix r assume a: "r \<in> set (getActiveRelics p rm)"
  with assms(2) have n: "\<not> assignedOnly r" by (simp add: selectableOnly_def list_all_iff)
  from active_relic_registered [OF a] assms(1)
  have "r \<in> set (map snd (relics registeredRelics))" by simp
  with registered_selectable_vulnerability [of w]
  have "assignedOnly r \<or> getWordVulnerabilityMult r w = 1"
    unfolding list_all_iff by blast
  with n show "getWordVulnerabilityMult r w = 1" by simp
qed

lemma playerLaneDamage_laneDamage: "playerLaneDamage rm l = laneDamage rm P1 l"
  by (simp add: playerLaneDamage_def laneDamage_def opponent_def)

lemma enemyLaneDamage_laneDamage:
  assumes "relics rm = relics registeredRelics" and "selectableOnly rm P1"
  shows "enemyLaneDamage rm l = laneDamage rm P2 l"
  using vulnerabilityMult_selectable [OF assms]
  by (simp add: enemyLaneDamage_def laneDamage_def opponent_def)

lemma combatLane_laneDamage:
  assumes "relics rm = relics registeredRelics" and "selectableOnly rm P1"
  shows "combatLane rm (pd, ed) l = (pd + laneDamage rm P1 l, ed + laneDamage rm P2 l)"
  using enemyLaneDamage_laneDamage [OF assms, of l]
  by (simp add: combatLane_spec playerLaneDamage_laneDamage)

lemma processCombat_laneDamage:
  assumes "relics rm = relics registeredRelics" and "selectableOnly rm P1"
  shows "processCombat rm b =
       (let playerDamage = sum_list (map (laneDamage rm P1) (lanes b));
            enemyDamage = sum_list (map (laneDamage rm P2) (lanes b))
        in b\<lparr>enemyHealth := (if playerDamage > 0 then max 0 (enemyHealth b - playerDamage)
                              else enemyHealth b),
             playerHealth := (if enemyDamage > 0 then max 0 (playerHealth b - enemyDamage)
                               else playerHealth b)\<rparr>)"
proof -
  have p: "map (playerLaneDamage rm) (lanes b) = map (laneDamage rm P1) (lanes b)"
    by (simp add: playerLaneDamage_laneDamage)
  have e: "map (enemyLaneDamage rm) (lanes b) = map (laneDamage rm P2) (lanes b)"
    by (simp add: enemyLaneDamage_laneDamage [OF assms])
  show ?thesis
    unfolding processCombat_spec [of rm b] p e ..
qed

lemma laneDamage_six:
  assumes "owner l = Some p" and "length (tiles l) = 3" and "scoreMult rm p (getWord l) = 2"
    and "scoreAdditive rm p (getWord l) = 0"
    and "vulnerabilityMult rm (opponent p) (getWord l) = 1"
  shows "laneDamage rm p l = 6" and "laneDamage rm (opponent p) l = 0"
  using assms by (simp_all add: laneDamage_def opponent_def split: player.splits)

lemma playGame_relics:
  "relics (manager (playGame evs)) = relics registeredRelics"
  "selectableOnly (manager (playGame evs)) P1"
  using gameInvariant_playGame [of evs] by (simp_all add: gameInvariant_def)

section \<open>Damage of a combat resolution\<close>

text \<open>
  Claim C1. In every relic state \<open>rm\<close> that a game reaches (the player's relics chosen
  from the cards of \<open>getRandomInactiveRelics\<close> or claimed as a reward, the enemy's relics
  set by \<open>setupBattle\<close>), a lane that holds a tile adds to the damage of the side that owns
  it floor((tileCount * product of the owner's word-score multipliers + sum of the owner's
  word-score additives) * product of the opposing side's vulnerability multipliers for the
  lane's word), and \<open>processCombat\<close> subtracts each side's sum, when positive, from the
  opposing health, stopping at zero. The branch of \<open>processCombat\<close> for the enemy's lanes
  does not read the player's vulnerability multiplier; in these states that factor is 1,
  since only relics marked \<open>assignedOnly\<close> override \<open>getWordVulnerabilityMult\<close> and
  \<open>getRandomInactiveRelics\<close> leaves them out. A lane of three tiles with an owner's
  multiplier of 2, no additive and an opposing vulnerability of 1 adds exactly 6.
\<close>

theorem processCombat_lane_damage:
  assumes "rm = manager (playGame evs)"
  shows
  "combatLane rm (pd, ed) l = (pd + laneDamage rm P1 l, ed + laneDamage rm P2 l)
   \<and> processCombat rm b =
       (let playerDamage = sum_list (map (laneDamage rm P1) (lanes b));
            enemyDamage = sum_list (map (laneDamage rm P2) (lanes b))
        in b\<lparr>enemyHealth := (if playerDamage > 0 then max 0 (enemyHealth b - playerDamage)
                              else enemyHealth b),
             playerHealth := (if enemyDamage > 0 then max 0 (playerHealth b - enemyDamage)
                               else playerHealth b)\<rparr>)
   \<and> (owner l = Some p \<and> length (tiles l) = 3 \<and> scoreMult rm p (getWord l) = 2
        \<and> scoreAdditive rm p (getWord l) = 0
        \<and> vulnerabilityMult rm (opponent p) (getWord l) = 1
      \<longrightarrow> laneDamage rm p l = 6
          \<and> combatLane rm (pd, ed) l = (case p of P1 \<Rightarrow> (pd + 6, ed) | P2 \<Rightarrow> (pd, ed + 6)))"
proof (intro conjI impI)
  from assms have r: "relics rm = relics registeredRelics" and s: "selectableOnly rm P1"
    by (simp_all add: playGame_relics)
  show c: "combatLane rm (pd, ed) l = (pd + laneDamage rm P1 l, ed + laneDamage rm P2 l)"
    by (rule combatLane_laneDamage [OF r s])
  show "processCombat rm b =
       (let playerDamage = sum_list (map (laneDamage rm P1) (lanes b));
            enemyDamage = sum_list (map (laneDamage rm P2) (lanes b))
        in b\<lparr>enemyHealth := (if playerDamage > 0 then max 0 (enemyHealth b - playerDamage)
                              else enemyHealth b),
             playerHealth := (if enemyDamage > 0 then max 0 (playerHealth b - enemyDamage)
                               else playerHealth b)\<rparr>)"
    by (rule processCombat_laneDamage [OF r s])
  assume h: "owner l = Some p \<and> length (tiles l) = 3 \<and> scoreMult rm p (getWord l) = 2
        \<and> scoreAdditive rm p (getWord l) = 0
        \<and> vulnerabilityMult rm (opponent p) (getWord l) = 1"
  then have six: "laneDamage rm p l = 6" and zero: "laneDamage rm (opponent p) l = 0"
    by (simp_all add: laneDamage_six)
  from six show "laneDamage rm p l = 6" .
  from six zero c
  show "combatLane rm (pd, ed) l = (case p of P1 \<Rightarrow> (pd + 6, ed) | P2 \<Rightarrow> (pd, ed + 6))"
    by (cases p) (simp_all add: opponent_def)
qed

theorem processCombat_lane_damage_witness:
  "owner (laneWith 0 STEEL ''ANT'' (Some P1) 0) = Some P1
   \<and> length (tiles (laneWith 0 STEEL ''ANT'' (Some P1) 0)) = 3
   \<and> scoreMult (manager (playGame [PopulateRelicOptions [17, 11, 27, 2, 8, 3, 2, 5, 2, 4, 6],
                                    ClickRelicCard 2, SetupBattle [''Cold Words'']])) P1
        (getWord (laneWith 0 STEEL ''ANT'' (Some P1) 0)) = 2
   \<and> scoreAdditive (manager (playGame [PopulateRelicOptions [17, 11, 27, 2, 8, 3, 2, 5, 2, 4, 6],
                                    ClickRelicCard 2, SetupBattle [''Cold Words'']])) P1
        (getWord (laneWith 0 STEEL ''ANT'' (Some P1) 0)) = 0
   \<and> vulnerabilityMult (manager (playGame [PopulateRelicOptions [17, 11, 27, 2, 8, 3, 2, 5, 2, 4, 6],
                                    ClickRelicCard 2, SetupBattle [''Cold Words'']])) (opponent P1)
        (getWord (laneWith 0 STEEL ''ANT'' (Some P1) 0)) = 1
   \<and> combatLane (manager (playGame [PopulateRelicOptions [17, 11, 27, 2, 8, 3, 2, 5, 2, 4, 6],
                                    ClickRelicCard 2, SetupBattle [''Cold Words'']])) (0, 0)
        (laneWith 0 STEEL ''ANT'' (Some P1) 0) = (6, 0)
   \<and> combatLane (manager (playGame [PopulateRelicOptions [17, 11, 27, 2, 8, 3, 2, 5, 2, 4, 6],
                                    ClickRelicCard 2, SetupBattle [''Bug Words'']])) (0, 0)
        (laneWith 0 STEEL ''ANT'' (Some P1) 0) = (12, 0)
   \<and> combatLane (manager (playGame [PopulateRelicOptions [17, 11, 27, 2, 8, 3, 2, 5, 2, 4, 6],
                                    ClickRelicCard 2, SetupBattle [''Bug Words'']])) (0, 0)
        (laneWith 1 STEEL ''WAX'' (Some P2) 0) = (0, 3)
   \<and> enemyHealth (processCombat
          (manager (playGame [PopulateRelicOptions [17, 11, 27, 2, 8, 3, 2, 5, 2, 4, 6],
                              ClickRelicCard 2, SetupBattle [''Bug Words'']]))
          ((Board (plainPool []) (plainPool []))
             \<lparr>lanes := [laneWith 0 STEEL ''ANT'' (Some P1) 0,
                        laneWith 1 STEEL ''WAX'' (Some P2) 0, Lane 2]\<rparr>)) = 18
   \<and> playerHealth (processCombat
          (manager (playGame [PopulateRelicOptions [17, 11, 27, 2, 8, 3, 2, 5, 2, 4, 6],
                              ClickRelicCard 2, SetupBattle [''Bug Words'']]))
          ((Board (plainPool []) (plainPool []))
             \<lparr>lanes := [laneWith 0 STEEL ''ANT'' (Some P1) 0,
                        laneWith 1 STEEL ''WAX'' (Some P2) 0, Lane 2]\<rparr>)) = 27"
proof -
  let ?g = "[17, 11, 27, 2, 8, 3, 2, 5, 2, 4, 6] :: rng"
  let ?rm = "manager (playGame [PopulateRelicOptions ?g, ClickRelicCard 2,
                                SetupBattle [''Cold Words'']])"
  let ?rm2 = "manager (playGame [PopulateRelicOptions ?g, ClickRelicCard 2,
                                 SetupBattle [''Bug Words'']])"
  let ?l = "laneWith 0 STEEL ''ANT'' (Some P1) 0"
  let ?l2 = "laneWith 1 STEEL ''WAX'' (Some P2) 0"
  let ?b = "(Board (plainPool []) (plainPool []))\<lparr>lanes := [?l, ?l2, Lane 2]\<rparr>"
  have h: "owner ?l = Some P1 \<and> length (tiles ?l) = 3 \<and> scoreMult ?rm P1 (getWord ?l) = 2
        \<and> scoreAdditive ?rm P1 (getWord ?l) = 0
        \<and> vulnerabilityMult ?rm (opponent P1) (getWord ?l) = 1"
    by code_simp
  have c1: "combatLane ?rm (0, 0) ?l = (case P1 of P1 \<Rightarrow> (0 + 6, 0) | P2 \<Rightarrow> (0, 0 + 6))"
    using processCombat_lane_damage [of ?rm _ 0 0 ?l ?b P1, OF refl] h
    by blast
  have d1: "laneDamage ?rm2 P1 ?l = 12" by code_simp
  have d2: "laneDamage ?rm2 P2 ?l = 0" by code_simp
  have d3: "laneDamage ?rm2 P1 ?l2 = 0" by code_simp
  have d4: "laneDamage ?rm2 P2 ?l2 = 3" by code_simp
  have c2: "combatLane ?rm2 (0, 0) ?l = (0 + laneDamage ?rm2 P1 ?l, 0 + laneDamage ?rm2 P2 ?l)"
    using processCombat_lane_damage [of ?rm2 _ 0 0 ?l ?b P1, OF refl]
    by blast
  have c3: "combatLane ?rm2 (0, 0) ?l2 = (0 + laneDamage ?rm2 P1 ?l2, 0 + laneDamage ?rm2 P2 ?l2)"
    using processCombat_lane_damage [of ?rm2 _ 0 0 ?l2 ?b P1, OF refl]
    by blast
  have p: "processCombat ?rm2 ?b =
       (let playerDamage = sum_list (map (laneDamage ?rm2 P1) (lanes ?b));
            enemyDamage = sum_list (map (laneDamage ?rm2 P2) (lanes ?b))
        in ?b\<lparr>enemyHealth := (if playerDamage > 0 then max 0 (enemyHealth ?b - playerDamage)
                              else enemyHealth ?b),
             playerHealth := (if enemyDamage > 0 then max 0 (playerHealth ?b - enemyDamage)
                               else playerHealth ?b)\<rparr>)"
    using processCombat_lane_damage [of ?rm2 _ 0 0 ?l ?b P1, OF refl]
    by blast
  have e: "enemyHealth (let playerDamage = sum_list (map (laneDamage ?rm2 P1) (lanes ?b));
            enemyDamage = sum_list (map (laneDamage ?rm2 P2) (lanes ?b))
        in ?b\<lparr>enemyHealth := (if playerDamage > 0 then max 0 (enemyHealth ?b - playerDamage)
                              else enemyHealth ?b),
             playerHealth := (if enemyDamage > 0 then max 0 (playerHealth ?b - enemyDamage)
                               else playerHealth ?b)\<rparr>) = 18"
    by code_simp
  have f: "playerHealth (let playerDamage = sum_list (map (laneDamage ?rm2 P1) (lanes ?b));
            enemyDamage = sum_list (map (laneDamage ?rm2 P2) (lanes ?b))
        in ?b\<lparr>enemyHealth := (if playerDamage > 0 then max 0 (enemyHealth ?b - playerDamage)
                              else enemyHealth ?b),
             playerHealth := (if enemyDamage > 0 then max 0 (playerHealth ?b - enemyDamage)
                               else playerHealth ?b)\<rparr>) = 27"
    by code_simp
  from h c1 c2 c3 d1 d2 d3 d4 e f show ?thesis
    unfolding p [symmetric] by simp
qed

section \<open>A turn with an invalid word is rejected\<close>

lemma validateLoop_filter:
  "validateLoop d p ls i invalid
     = invalid @ map (\<lambda>k. i + k) (filter (\<lambda>k. offendingLane d p (ls ! k)) [0..<length ls])"
proof (induction ls arbitrary: i invalid)
  case Nil
  then show ?case by simp
next
  case (Cons l rest)
  have u: "[0..<length (l # rest)] = 0 # map Suc [0..<length rest]"
    by (simp add: upt_conv_Cons map_Suc_upt del: upt_Suc)
  show ?case
    unfolding u
    by (simp add: Cons.IH filter_map comp_def offendingLane_def hasNewTiles_def
          MIN_WORD_LENGTH_def)
qed

lemma shakeTargets_lanes:
  assumes "\<forall>i \<in> set ivs. tiles (lanes b ! i) \<noteq> []"
  shows "fst ` set (shakeTargets b ivs) = set ivs"
proof -
  have "\<And>i. i \<in> set ivs \<Longrightarrow> [0..<length (tiles (lanes b ! i))] \<noteq> []"
    using assms by simp
  then show ?thesis
    by (fastforce simp: shakeTargets_def image_iff)
qed

lemma validateAllWords_filter:
  "validateAllWords d b
     = filter (\<lambda>i. offendingLane d (currentPlayer b) (lanes b ! i)) [0..<length (lanes b)]"
  by (simp add: validateAllWords_def validateLoop_filter)

text \<open>
  Claim C2. In the playing phase, when some lane that gained tiles this turn holds a word
  shorter than two letters or not in the acting side's dictionary, endTurn returns false,
  the lanes whose tiles are shaken are exactly the offending lanes (validateAllWords lists
  them in increasing order), and the board and the random source come back as they were:
  no owner changes, no hand is refilled, the phase stays playing.
\<close>

theorem endTurn_rejects_invalid_words:
  assumes "state b = playing"
    and "\<exists>i < length (lanes b). offendingLane d (currentPlayer b) (lanes b ! i)"
  shows "\<exists>shaken. endTurn d rm g b = (False, shaken, g, b)
           \<and> validateAllWords d b
               = filter (\<lambda>i. offendingLane d (currentPlayer b) (lanes b ! i))
                        [0..<length (lanes b)]
           \<and> shaken = shakeTargets b (validateAllWords d b)
           \<and> fst ` set shaken
               = {i. i < length (lanes b) \<and> offendingLane d (currentPlayer b) (lanes b ! i)}"
proof -
  let ?ivs = "validateAllWords d b"
  have v: "?ivs = filter (\<lambda>i. offendingLane d (currentPlayer b) (lanes b ! i))
                         [0..<length (lanes b)]"
    by (rule validateAllWords_filter)
  have s: "set ?ivs = {i. i < length (lanes b) \<and> offendingLane d (currentPlayer b) (lanes b ! i)}"
    unfolding v by auto
  from assms(2) obtain i where
    i: "i < length (lanes b)" "offendingLane d (currentPlayer b) (lanes b ! i)"
    by blast
  then have "i \<in> set ?ivs" unfolding v by simp
  then have ne: "?ivs \<noteq> []" by (cases ?ivs) simp_all
  have "\<forall>i \<in> set ?ivs. tiles (lanes b ! i) \<noteq> []"
    unfolding v by (auto simp: offendingLane_def)
  then have f: "fst ` set (shakeTargets b ?ivs) = set ?ivs"
    by (rule shakeTargets_lanes)
  from assms(1) ne have e: "endTurn d rm g b = (False, shakeTargets b ?ivs, g, b)"
    unfolding endTurn_def by simp
  have f': "fst ` set (shakeTargets b ?ivs)
              = {i. i < length (lanes b) \<and> offendingLane d (currentPlayer b) (lanes b ! i)}"
    using f s by (rule trans)
  show ?thesis
    by (intro exI [of _ "shakeTargets b ?ivs"] conjI e v refl f')
qed


theorem endTurn_rejects_invalid_words_witness:
  "state ((Board (plainPool ''EEEE'') (plainPool []))
       \<lparr>lanes := [laneWith 0 MAIN ''XQ'' None 0, laneWith 1 STEEL ''CAT'' (Some P2) 3, Lane 2]\<rparr>)
     = playing
   \<and> (\<exists>i < length (lanes ((Board (plainPool ''EEEE'') (plainPool []))
       \<lparr>lanes := [laneWith 0 MAIN ''XQ'' None 0, laneWith 1 STEEL ''CAT'' (Some P2) 3, Lane 2]\<rparr>)).
         offendingLane sampleDictionary
           (currentPlayer ((Board (plainPool ''EEEE'') (plainPool []))
       \<lparr>lanes := [laneWith 0 MAIN ''XQ'' None 0, laneWith 1 STEEL ''CAT'' (Some P2) 3, Lane 2]\<rparr>))
           (lanes ((Board (plainPool ''EEEE'') (plainPool []))
       \<lparr>lanes := [laneWith 0 MAIN ''XQ'' None 0, laneWith 1 STEEL ''CAT'' (Some P2) 3, Lane 2]\<rparr>) ! i))
   \<and> (\<exists>shaken. endTurn sampleDictionary registeredRelics [5, 2]
         ((Board (plainPool ''EEEE'') (plainPool []))
       \<lparr>lanes := [laneWith 0 MAIN ''XQ'' None 0, laneWith 1 STEEL ''CAT'' (Some P2) 3, Lane 2]\<rparr>)
        = (False, shaken, [5, 2], (Board (plainPool ''EEEE'') (plainPool []))
       \<lparr>lanes := [laneWith 0 MAIN ''XQ'' None 0, laneWith 1 STEEL ''CAT'' (Some P2) 3, Lane 2]\<rparr>))"
proof -
  let ?b = "(Board (plainPool ''EEEE'') (plainPool []))
       \<lparr>lanes := [laneWith 0 MAIN ''XQ'' None 0, laneWith 1 STEEL ''CAT'' (Some P2) 3, Lane 2]\<rparr>"
  have h1: "state ?b = playing" by (simp add: Board_def)
  have o: "offendingLane sampleDictionary (currentPlayer ?b) (lanes ?b ! 0)" by code_simp
  have h2: "\<exists>i < length (lanes ?b). offendingLane sampleDictionary (currentPlayer ?b) (lanes ?b ! i)"
  proof (intro exI conjI)
    show "0 < length (lanes ?b)" by simp
    show "offendingLane sampleDictionary (currentPlayer ?b) (lanes ?b ! 0)" by (rule o)
  qed
  have e: "\<exists>shaken. endTurn sampleDictionary registeredRelics [5, 2] ?b = (False, shaken, [5, 2], ?b)"
    using endTurn_rejects_invalid_words [OF h1 h2, of registeredRelics "[5, 2]"]
    by (elim exE conjE) (rule exI)
  show ?thesis by (intro conjI h1 h2 e)
qed

section \<open>Drawing from the pool and refilling a rack\<close>

lemma randomIndex_lt: "0 < n \<Longrightarrow> fst (randomIndex n g) < n"
  by (cases g) simp_all

lemma findIndex_Some:
  "findIndex P xs = Some k \<Longrightarrow> k < length xs \<and> P (xs ! k) \<and> (\<forall>j < k. \<not> P (xs ! j))"
proof (induction xs arbitrary: k)
  case Nil
  then show ?case by simp
next
  case (Cons x xs)
  show ?case
  proof (cases "P x")
    case True
    with Cons.prems show ?thesis by simp
  next
    case False
    with Cons.prems obtain k' where k': "findIndex P xs = Some k'" "k = Suc k'"
      by auto
    from Cons.IH [OF k'(1)] False k'(2) show ?thesis
      by (auto simp: less_Suc_eq_0_disj)
  qed
qed

lemma findIndex_None: "findIndex P xs = None \<longleftrightarrow> (\<forall>x \<in> set xs. \<not> P x)"
  by (induction xs) auto

lemma length_splice_remove: "i < length xs \<Longrightarrow> length (splice_remove i xs) = length xs - 1"
  by (simp add: splice_remove_def)

lemma letter_createTileFromData: "letter (createTileFromData d) = toUpperCase (tileLetter d)"
  by (cases d) (simp_all add: createTileFromData_def Tile_def tileLetter_def)

lemma drawTile_empty: "remainingTiles ts = [] \<Longrightarrow> drawTile sl g ts = (None, g, ts)"
  by (simp add: drawTile_def)

lemma drawTile_absent:
  assumes "\<forall>d \<in> set (remainingTiles ts). toUpperCase (tileLetter d) \<noteq> toUpperCase l"
  shows "drawTile (Some l) g ts = (None, g, ts)"
proof -
  from assms have "findIndex (\<lambda>t. toUpperCase (tileLetter t) = toUpperCase l) (remainingTiles ts) = None"
    by (simp add: findIndex_None)
  then show ?thesis by (simp add: drawTile_def)
qed

lemma drawTile_present:
  assumes "\<exists>d \<in> set (remainingTiles ts). toUpperCase (tileLetter d) = toUpperCase l"
  shows "\<exists>k. k < length (remainingTiles ts)
            \<and> toUpperCase (tileLetter (remainingTiles ts ! k)) = toUpperCase l
            \<and> (\<forall>j < k. toUpperCase (tileLetter (remainingTiles ts ! j)) \<noteq> toUpperCase l)
            \<and> drawTile (Some l) g ts
                = (Some (createTileFromData (remainingTiles ts ! k)), g,
                   ts\<lparr>remainingTiles := take k (remainingTiles ts) @ drop (Suc k) (remainingTiles ts)\<rparr>)"
proof -
  let ?P = "\<lambda>t. toUpperCase (tileLetter t) = toUpperCase l"
  from assms have "findIndex ?P (remainingTiles ts) \<noteq> None"
    by (simp add: findIndex_None)
  then obtain k where k: "findIndex ?P (remainingTiles ts) = Some k" by auto
  from assms have ne: "remainingTiles ts \<noteq> []" by auto
  from findIndex_Some [OF k] k ne show ?thesis
    by (intro exI [of _ k]) (simp add: drawTile_def splice_remove_def)
qed

lemma drawTile_random:
  assumes "remainingTiles ts \<noteq> []"
  shows "\<exists>k g'. k < length (remainingTiles ts)
            \<and> drawTile None g ts
                = (Some (createTileFromData (remainingTiles ts ! k)), g',
                   ts\<lparr>remainingTiles := splice_remove k (remainingTiles ts)\<rparr>)"
proof -
  obtain k g' where r: "randomIndex (length (remainingTiles ts)) g = (k, g')"
    by (cases "randomIndex (length (remainingTiles ts)) g")
  from assms randomIndex_lt [of "length (remainingTiles ts)" g] r
  have "k < length (remainingTiles ts)" by simp
  with assms r show ?thesis
    by (intro exI [of _ k] exI [of _ g']) (simp add: drawTile_def)
qed

lemma drawTile_None:
  "fst (drawTile sl g ts) = None \<Longrightarrow> drawTile sl g ts = (None, g, ts)"
  by (auto simp: drawTile_def Let_def split: if_splits option.splits prod.splits)

lemma drawTile_None_random:
  "fst (drawTile None g ts) = None \<Longrightarrow> remainingTiles ts = []"
  by (auto simp: drawTile_def Let_def split: if_splits option.splits prod.splits)

lemma drawTile_Some:
  "fst (drawTile sl g ts) = Some t \<Longrightarrow>
   Suc (length (remainingTiles (snd (snd (drawTile sl g ts))))) = length (remainingTiles ts)"
proof (cases sl)
  case None
  assume a: "fst (drawTile sl g ts) = Some t"
  with None have "remainingTiles ts \<noteq> []" by (auto simp: drawTile_def)
  from drawTile_random [OF this, of g] None show ?thesis
    by (auto simp: length_splice_remove)
next
  case (Some l)
  assume a: "fst (drawTile sl g ts) = Some t"
  have "\<exists>d \<in> set (remainingTiles ts). toUpperCase (tileLetter d) = toUpperCase l"
  proof (rule ccontr)
    assume "\<not> ?thesis"
    then have "drawTile (Some l) g ts = (None, g, ts)" by (intro drawTile_absent) simp
    with a Some show False by simp
  qed
  from drawTile_present [OF this, of g] Some show ?thesis
    by auto
qed

lemma fillRequired_empty:
  "remainingTiles ts = [] \<Longrightarrow> fillRequired req cur g r ts = (g, r, ts)"
  by (induction req) (simp_all add: drawTile_empty Let_def)

lemma addTile_length:
  "\<not> isFull r \<Longrightarrow> length (tiles (snd (addTile t r))) = Suc (length (tiles r))
     \<and> maxTiles (snd (addTile t r)) = maxTiles r"
  by (simp add: isFull_def addTile_def)

lemma fillRequired_props:
  "fillRequired req cur g r ts = (g', r', ts') \<Longrightarrow>
   length (tiles r') + length (remainingTiles ts') = length (tiles r) + length (remainingTiles ts)
   \<and> maxTiles r' = maxTiles r
   \<and> (length (tiles r) \<le> maxTiles r \<longrightarrow> length (tiles r') \<le> maxTiles r)"
proof (induction req arbitrary: g r ts)
  case Nil
  then show ?case by simp
next
  case (Cons c req)
  let ?l = "toUpperCase c"
  show ?case
  proof (cases "?l \<notin> set cur \<and> \<not> isFull r")
    case False
    with Cons.prems have "fillRequired req cur g r ts = (g', r', ts')"
      by (auto simp: Let_def)
    from Cons.IH [OF this] show ?thesis .
  next
    case True
    obtain t g1 ts1 where d: "drawTile (Some ?l) g ts = (t, g1, ts1)"
      by (cases "drawTile (Some ?l) g ts")
    show ?thesis
    proof (cases t)
      case None
      with d drawTile_None [of "Some ?l" g ts] have e: "g1 = g" "ts1 = ts" by simp_all
      from True d None Cons.prems have "fillRequired req cur g1 r ts1 = (g', r', ts')"
        by (simp add: Let_def)
      from Cons.IH [OF this] e show ?thesis by simp
    next
      case (Some tl)
      from True d Some Cons.prems
      have "fillRequired req cur g1 (snd (addTile tl r)) ts1 = (g', r', ts')"
        by (simp add: Let_def)
      note ih = Cons.IH [OF this]
      from d Some drawTile_Some [of "Some ?l" g ts tl]
      have "Suc (length (remainingTiles ts1)) = length (remainingTiles ts)" by simp
      moreover from True addTile_length [of r tl]
      have "length (tiles (snd (addTile tl r))) = Suc (length (tiles r))"
        "maxTiles (snd (addTile tl r)) = maxTiles r" by simp_all
      moreover from True have "length (tiles r) < maxTiles r" by (simp add: isFull_def)
      ultimately show ?thesis using ih by auto
    qed
  qed
qed

lemma fillRandom_empty:
  "remainingTiles ts = [] \<Longrightarrow> fillRandom g r ts = (g, r, ts)"
  by (subst fillRandom.simps) (simp add: drawTile_empty Let_def)

lemma fillRandom_props:
  "fillRandom g r ts = (g', r', ts') \<Longrightarrow>
   (isFull r' \<or> remainingTiles ts' = [])
   \<and> length (tiles r') + length (remainingTiles ts') = length (tiles r) + length (remainingTiles ts)
   \<and> maxTiles r' = maxTiles r
   \<and> (length (tiles r) \<le> maxTiles r \<longrightarrow> length (tiles r') \<le> maxTiles r)"
proof (induction g r ts rule: fillRandom.induct)
  case (1 g r ts)
  show ?case
  proof (cases "isFull r")
    case True
    with "1.prems" have "g' = g \<and> r' = r \<and> ts' = ts"
      by (subst (asm) fillRandom.simps) simp
    with True show ?thesis by simp
  next
    case False
    let ?d = "drawTile None g ts"
    show ?thesis
    proof (cases "fst ?d")
      case None
      from drawTile_None [OF None] drawTile_None_random [OF None] False "1.prems"
      show ?thesis
        by (subst (asm) fillRandom.simps) (simp add: Let_def)
    next
      case (Some t)
      from False Some "1.prems"
      have e: "fillRandom (fst (snd ?d)) (snd (addTile t r)) (snd (snd ?d)) = (g', r', ts')"
        by (subst (asm) fillRandom.simps) (simp add: Let_def)
      note ih = "1.IH" [OF False refl Some e]
      from drawTile_Some [OF Some]
      have "Suc (length (remainingTiles (snd (snd ?d)))) = length (remainingTiles ts)" .
      moreover from False addTile_length [of r t]
      have "length (tiles (snd (addTile t r))) = Suc (length (tiles r))"
        "maxTiles (snd (addTile t r)) = maxTiles r" by simp_all
      moreover from False have "length (tiles r) < maxTiles r" by (simp add: isFull_def)
      ultimately show ?thesis using ih by auto
    qed
  qed
qed

lemma fillRack_empty:
  "remainingTiles ts = [] \<Longrightarrow> fillRack rm g r ts pn = (g, r, ts)"
  by (simp add: fillRack_def fillRequired_empty fillRandom_empty)

lemma fillRack_props:
  assumes "fillRack rm g r ts pn = (g', r', ts')"
  shows "(isFull r' \<or> remainingTiles ts' = [])
   \<and> length (tiles r') + length (remainingTiles ts') = length (tiles r) + length (remainingTiles ts)
   \<and> maxTiles r' = maxTiles r
   \<and> (length (tiles r) \<le> maxTiles r \<longrightarrow> length (tiles r') \<le> maxTiles r)"
proof -
  obtain g1 r1 ts1 where
    a: "fillRequired (getListOfResults getRequiredRackLetters pn rm) (getLetters r) g r ts
          = (g1, r1, ts1)"
    by (metis prod_cases3)
  with assms have b: "fillRandom g1 r1 ts1 = (g', r', ts')"
    by (simp add: fillRack_def)
  from fillRequired_props [OF a] fillRandom_props [OF b] show ?thesis by auto
qed

text \<open>
  Claim C6. drawTile returns null, and changes neither the pool nor the random source, when
  the working copy is empty, and drawTile(letter) does so when no tile of the working copy
  has that letter (compared in upper case). When one has, drawTile(letter) returns a tile
  of that letter made from the first such element and removes exactly that element. fillRack
  always returns: on an empty pool it leaves the rack as it is, and in general it stops with
  the rack full or the pool empty, having moved tiles one for one from the pool to the rack
  and never beyond the capacity of the rack.
\<close>

theorem drawTile_null_and_fillRack_stops:
  "(remainingTiles ts = [] \<longrightarrow> drawTile specificLetter g ts = (None, g, ts))
   \<and> ((\<forall>d \<in> set (remainingTiles ts). toUpperCase (tileLetter d) \<noteq> toUpperCase l) \<longrightarrow>
        drawTile (Some l) g ts = (None, g, ts))
   \<and> ((\<exists>d \<in> set (remainingTiles ts). toUpperCase (tileLetter d) = toUpperCase l) \<longrightarrow>
        (\<exists>k. k < length (remainingTiles ts)
            \<and> toUpperCase (tileLetter (remainingTiles ts ! k)) = toUpperCase l
            \<and> drawTile (Some l) g ts
                = (Some (createTileFromData (remainingTiles ts ! k)), g,
                   ts\<lparr>remainingTiles := take k (remainingTiles ts) @ drop (Suc k) (remainingTiles ts)\<rparr>)
            \<and> letter (createTileFromData (remainingTiles ts ! k)) = toUpperCase l
            \<and> length (take k (remainingTiles ts) @ drop (Suc k) (remainingTiles ts))
                = length (remainingTiles ts) - 1))
   \<and> (remainingTiles ts = [] \<longrightarrow> fillRack rm g r ts pn = (g, r, ts))
   \<and> (\<exists>g' r' ts'. fillRack rm g r ts pn = (g', r', ts')
          \<and> (isFull r' \<or> remainingTiles ts' = [])
          \<and> length (tiles r') + length (remainingTiles ts')
              = length (tiles r) + length (remainingTiles ts)
          \<and> maxTiles r' = maxTiles r
          \<and> (length (tiles r) \<le> maxTiles r \<longrightarrow> length (tiles r') \<le> maxTiles r))"
proof (intro conjI impI)
  assume "remainingTiles ts = []"
  then show "drawTile specificLetter g ts = (None, g, ts)" by (rule drawTile_empty)
next
  assume "\<forall>d \<in> set (remainingTiles ts). toUpperCase (tileLetter d) \<noteq> toUpperCase l"
  then show "drawTile (Some l) g ts = (None, g, ts)" by (rule drawTile_absent)
next
  assume "\<exists>d \<in> set (remainingTiles ts). toUpperCase (tileLetter d) = toUpperCase l"
  from drawTile_present [OF this, of g] obtain k where
    k: "k < length (remainingTiles ts)"
       "toUpperCase (tileLetter (remainingTiles ts ! k)) = toUpperCase l"
       "drawTile (Some l) g ts
                = (Some (createTileFromData (remainingTiles ts ! k)), g,
                   ts\<lparr>remainingTiles := take k (remainingTiles ts) @ drop (Suc k) (remainingTiles ts)\<rparr>)"
    by blast
  from k(1) have "length (take k (remainingTiles ts) @ drop (Suc k) (remainingTiles ts))
                = length (remainingTiles ts) - 1" by simp
  with k show "\<exists>k. k < length (remainingTiles ts)
            \<and> toUpperCase (tileLetter (remainingTiles ts ! k)) = toUpperCase l
            \<and> drawTile (Some l) g ts
                = (Some (createTileFromData (remainingTiles ts ! k)), g,
                   ts\<lparr>remainingTiles := take k (remainingTiles ts) @ drop (Suc k) (remainingTiles ts)\<rparr>)
            \<and> letter (createTileFromData (remainingTiles ts ! k)) = toUpperCase l
            \<and> length (take k (remainingTiles ts) @ drop (Suc k) (remainingTiles ts))
                = length (remainingTiles ts) - 1"
    by (intro exI [of _ k]) (simp add: letter_createTileFromData)
next
  assume "remainingTiles ts = []"
  then show "fillRack rm g r ts pn = (g, r, ts)" by (rule fillRack_empty)
next
  obtain g' r' ts' where f: "fillRack rm g r ts pn = (g', r', ts')"
    by (metis prod_cases3)
  from fillRack_props [OF f] f
  show "\<exists>g' r' ts'. fillRack rm g r ts pn = (g', r', ts')
          \<and> (isFull r' \<or> remainingTiles ts' = [])
          \<and> length (tiles r') + length (remainingTiles ts')
              = length (tiles r) + length (remainingTiles ts)
          \<and> maxTiles r' = maxTiles r
          \<and> (length (tiles r) \<le> maxTiles r \<longrightarrow> length (tiles r') \<le> maxTiles r)"
    by blast
qed

theorem drawTile_null_and_fillRack_stops_witness:
  "remainingTiles (plainPool []) = []
   \<and> drawTile None [4] (plainPool []) = (None, [4], plainPool [])
   \<and> fillRack registeredRelics [4] ((Rack P1)\<lparr>tiles := tilesOf MAIN ''AB''\<rparr>) (plainPool []) P1
       = ([4], (Rack P1)\<lparr>tiles := tilesOf MAIN ''AB''\<rparr>, plainPool [])
   \<and> list_all (\<lambda>d. toUpperCase (tileLetter d) \<noteq> toUpperCase CHR ''z'')
        (remainingTiles (plainPool ''CAT''))
   \<and> drawTile (Some CHR ''z'') [4] (plainPool ''CAT'') = (None, [4], plainPool ''CAT'')
   \<and> (\<exists>d \<in> set (remainingTiles (plainPool ''CAT'')).
         toUpperCase (tileLetter d) = toUpperCase CHR ''a'')
   \<and> fst (drawTile (Some CHR ''a'') [4] (plainPool ''CAT'')) \<noteq> None"
proof -
  let ?r = "(Rack P1)\<lparr>tiles := tilesOf MAIN ''AB''\<rparr>"
  have h1: "remainingTiles (plainPool []) = []" by (simp add: plainPool_def)
  have h2: "\<forall>d \<in> set (remainingTiles (plainPool ''CAT'')).
              toUpperCase (tileLetter d) \<noteq> toUpperCase CHR ''z''"
    by code_simp
  have h3: "\<exists>d \<in> set (remainingTiles (plainPool ''CAT'')).
              toUpperCase (tileLetter d) = toUpperCase CHR ''a''"
    by code_simp
  have c1: "drawTile None [4] (plainPool []) = (None, [4], plainPool [])"
       "fillRack registeredRelics [4] ?r (plainPool []) P1 = ([4], ?r, plainPool [])"
    using drawTile_null_and_fillRack_stops
            [of "plainPool []" None "[4]" "CHR ''z''" registeredRelics ?r P1] h1
    by blast+
  have c2: "drawTile (Some CHR ''z'') [4] (plainPool ''CAT'') = (None, [4], plainPool ''CAT'')"
    using drawTile_null_and_fillRack_stops
            [of "plainPool ''CAT''" None "[4]" "CHR ''z''" registeredRelics ?r P1] h2
    by blast
  have c3: "fst (drawTile (Some CHR ''a'') [4] (plainPool ''CAT'')) \<noteq> None"
    using drawTile_null_and_fillRack_stops
            [of "plainPool ''CAT''" None "[4]" "CHR ''a''" registeredRelics ?r P1] h3
    by fastforce
  from h2 have h2': "list_all (\<lambda>d. toUpperCase (tileLetter d) \<noteq> toUpperCase CHR ''z'')
                      (remainingTiles (plainPool ''CAT''))"
    by (simp only: list_all_iff)
  show ?thesis by (intro conjI h1 h2' h3 c1 c2 c3)
qed

section \<open>Mulligan\<close>

lemma returnTile_length:
  "length (remainingTiles (returnTile t ts)) = Suc (length (remainingTiles ts))"
  by (simp add: returnTile_def split: option.splits)

lemma foldl_returnTile_length:
  "length (remainingTiles (foldl (\<lambda>s t. returnTile t s) ts xs))
     = length (remainingTiles ts) + length xs"
  by (induction xs arbitrary: ts) (simp_all add: returnTile_length)

lemma returnTiles_length:
  "length (remainingTiles (returnTiles xs ts)) = length (remainingTiles ts) + length xs"
  by (simp add: returnTiles_def foldl_returnTile_length)

lemma mulligan_enemy: "currentPlayer b \<noteq> P1 \<Longrightarrow> mulligan fullMulligan rm g b = (g, b)"
  by (simp add: mulligan_def)

lemma mulligan_player:
  assumes "currentPlayer b = P1"
    and f: "fillRack rm g ((playerRack b)\<lparr>tiles := [], gapIndex := -1\<rparr>)
              (returnTiles (tiles (playerRack b)) (playerTileSet b)) P1 = (g', r', ts')"
  shows "mulligan fullMulligan rm g b =
           (g', if fullMulligan then b\<lparr>playerRack := r', playerTileSet := ts'\<rparr>
                else b\<lparr>playerRack := r', playerTileSet := ts',
                       mulliganCount := mulliganCount b - 1, hasUsedMulligan := True\<rparr>)"
  using assms by (simp add: mulligan_def clear_def)

lemma refill_size:
  assumes f: "fillRack rm g ((r::rack)\<lparr>tiles := [], gapIndex := -1\<rparr>)
              (returnTiles (tiles r) ts) pn = (g', r', ts')"
  shows "length (tiles r') = min (maxTiles r) (length (tiles r) + length (remainingTiles ts))"
proof -
  from fillRack_props [OF f]
  have p: "isFull r' \<or> remainingTiles ts' = []"
    "length (tiles r') + length (remainingTiles ts')
       = length (remainingTiles ts) + length (tiles r)"
    "maxTiles r' = maxTiles r" "length (tiles r') \<le> maxTiles r"
    by (simp_all add: returnTiles_length)
  from p(1) show ?thesis
  proof
    assume "isFull r'"
    with p(2,3,4) show ?thesis by (simp add: isFull_def)
  next
    assume "remainingTiles ts' = []"
    with p(2,4) show ?thesis by simp
  qed
qed

lemma processSpecialEffects_frame:
  "processSpecialEffects l b = (l', b') \<Longrightarrow>
   b' = b\<lparr>playerHealth := playerHealth b', playerMaxHealth := playerMaxHealth b',
          enemyHealth := enemyHealth b'\<rparr>"
  by (auto simp: processSpecialEffects_def dealDamage_def Let_def)

lemma claimLanes_frame:
  "claimLanes ls b = (ls', b') \<Longrightarrow>
   b' = b\<lparr>playerHealth := playerHealth b', playerMaxHealth := playerMaxHealth b',
          enemyHealth := enemyHealth b'\<rparr>"
proof (induction ls arbitrary: b ls' b')
  case Nil
  then show ?case by simp
next
  case (Cons l ls)
  obtain l1 b1 where s: "(if hasNewTiles l
                      then processSpecialEffects (setOwner (Some (currentPlayer b)) l) b
                      else (l, b)) = (l1, b1)"
    by (metis surj_pair)
  obtain rest b2 where c: "claimLanes ls b1 = (rest, b2)" by (metis surj_pair)
  from Cons.prems s c have e: "b' = b2" by (simp add: Let_def)
  from s have f1: "b1 = b\<lparr>playerHealth := playerHealth b1, playerMaxHealth := playerMaxHealth b1,
          enemyHealth := enemyHealth b1\<rparr>"
    by (auto dest: processSpecialEffects_frame split: if_splits)
  from Cons.IH [OF c] have f2: "b2 = b1\<lparr>playerHealth := playerHealth b2,
          playerMaxHealth := playerMaxHealth b2, enemyHealth := enemyHealth b2\<rparr>" .
  show ?case
    unfolding e by (subst f2, subst f1) simp
qed

lemma endTurn_full_hand:
  assumes "state b = playing" and v: "validateAllWords d b = []"
    and full: "isFull (playerRack b)" and p: "currentPlayer b = P1"
  shows "\<exists>g' b'. endTurn d rm g b = (True, [], g', b')
           \<and> mulliganCount b' = mulliganCount b
           \<and> hasUsedMulligan b' = hasUsedMulligan b
           \<and> length (tiles (playerRack b')) = maxTiles (playerRack b)
           \<and> state b' = end_turn"
proof -
  obtain ls b1 where c: "claimLanes (lanes b) b = (ls, b1)" by (metis surj_pair)
  from claimLanes_frame [OF c]
  have f: "b1 = b\<lparr>playerHealth := playerHealth b1, playerMaxHealth := playerMaxHealth b1,
          enemyHealth := enemyHealth b1\<rparr>" .
  have k: "playerRack b1 = playerRack b" "currentPlayer b1 = currentPlayer b"
    "mulliganCount b1 = mulliganCount b" "hasUsedMulligan b1 = hasUsedMulligan b"
    "playerTileSet b1 = playerTileSet b"
    by (subst f, simp)+
  let ?b2 = "b1\<lparr>lanes := ls\<rparr>"
  obtain g' r' ts' where
    fr: "fillRack rm g ((playerRack ?b2)\<lparr>tiles := [], gapIndex := -1\<rparr>)
              (returnTiles (tiles (playerRack ?b2)) (playerTileSet ?b2)) P1 = (g', r', ts')"
    by (metis prod_cases3)
  from p k have p2: "currentPlayer ?b2 = P1" by simp
  note m = mulligan_player [OF p2 fr, of True]
  from refill_size [OF fr] full k
  have len: "length (tiles r') = maxTiles (playerRack b)"
    by (simp add: isFull_def)
  from assms c k m have "endTurn d rm g b = (True, [], g', ?b2\<lparr>playerRack := r', playerTileSet := ts', state := end_turn\<rparr>)"
    unfolding endTurn_def by simp
  with k len show ?thesis by simp
qed

text \<open>
  Claim C8, as the code has it. When the enemy is the acting side, mulligan does nothing.
  When the player is, it returns the player's entire hand to the player's pool and refills
  the emptied hand from that pool until the hand is full or the pool is empty, so the new
  hand holds min(capacity, old hand + pool) tiles and no tile is lost. Invoked normally it
  then lowers the mulligan allowance by exactly one and sets the turn's mulligan flag;
  invoked as the forced mulligan it leaves both alone. No other field of the board changes
  in either mode. The forced mulligan of endTurn (hand still full, player acting, all words
  valid) ends with the allowance and the flag as before and a full hand.
\<close>

theorem mulligan_effects:
  "(currentPlayer b \<noteq> P1 \<longrightarrow> mulligan fullMulligan rm g b = (g, b))
   \<and> (currentPlayer b = P1 \<longrightarrow>
        (\<exists>g' r' ts'.
           fillRack rm g ((playerRack b)\<lparr>tiles := [], gapIndex := -1\<rparr>)
             (returnTiles (tiles (playerRack b)) (playerTileSet b)) P1 = (g', r', ts')
           \<and> mulligan fullMulligan rm g b =
               (g', if fullMulligan then b\<lparr>playerRack := r', playerTileSet := ts'\<rparr>
                    else b\<lparr>playerRack := r', playerTileSet := ts',
                           mulliganCount := mulliganCount b - 1, hasUsedMulligan := True\<rparr>)
           \<and> length (tiles r')
               = min (maxTiles (playerRack b))
                     (length (tiles (playerRack b)) + length (remainingTiles (playerTileSet b)))
           \<and> length (tiles r') + length (remainingTiles ts')
               = length (tiles (playerRack b)) + length (remainingTiles (playerTileSet b))))
   \<and> (state b = playing \<and> validateAllWords d b = [] \<and> isFull (playerRack b)
        \<and> currentPlayer b = P1 \<longrightarrow>
        (\<exists>g' b'. endTurn d rm g b = (True, [], g', b')
           \<and> mulliganCount b' = mulliganCount b
           \<and> hasUsedMulligan b' = hasUsedMulligan b
           \<and> length (tiles (playerRack b')) = maxTiles (playerRack b)
           \<and> state b' = end_turn))"
proof (intro conjI impI)
  assume "currentPlayer b \<noteq> P1"
  then show "mulligan fullMulligan rm g b = (g, b)" by (rule mulligan_enemy)
next
  assume p: "currentPlayer b = P1"
  obtain g' r' ts' where
    fr: "fillRack rm g ((playerRack b)\<lparr>tiles := [], gapIndex := -1\<rparr>)
              (returnTiles (tiles (playerRack b)) (playerTileSet b)) P1 = (g', r', ts')"
    by (metis prod_cases3)
  from fillRack_props [OF fr]
  have cons: "length (tiles r') + length (remainingTiles ts')
               = length (tiles (playerRack b)) + length (remainingTiles (playerTileSet b))"
    by (simp add: returnTiles_length)
  show "\<exists>g' r' ts'.
           fillRack rm g ((playerRack b)\<lparr>tiles := [], gapIndex := -1\<rparr>)
             (returnTiles (tiles (playerRack b)) (playerTileSet b)) P1 = (g', r', ts')
           \<and> mulligan fullMulligan rm g b =
               (g', if fullMulligan then b\<lparr>playerRack := r', playerTileSet := ts'\<rparr>
                    else b\<lparr>playerRack := r', playerTileSet := ts',
                           mulliganCount := mulliganCount b - 1, hasUsedMulligan := True\<rparr>)
           \<and> length (tiles r')
               = min (maxTiles (playerRack b))
                     (length (tiles (playerRack b)) + length (remainingTiles (playerTileSet b)))
           \<and> length (tiles r') + length (remainingTiles ts')
               = length (tiles (playerRack b)) + length (remainingTiles (playerTileSet b))"
    by (intro exI [of _ g'] exI [of _ r'] exI [of _ ts'] conjI fr
          mulligan_player [OF p fr] refill_size [OF fr] cons)
next
  assume "state b = playing \<and> validateAllWords d b = [] \<and> isFull (playerRack b)
        \<and> currentPlayer b = P1"
  then show "\<exists>g' b'. endTurn d rm g b = (True, [], g', b')
           \<and> mulliganCount b' = mulliganCount b
           \<and> hasUsedMulligan b' = hasUsedMulligan b
           \<and> length (tiles (playerRack b')) = maxTiles (playerRack b)
           \<and> state b' = end_turn"
    using endTurn_full_hand [of b d rm g] by blast
qed

text \<open>
  With the enemy acting, a normal mulligan leaves the allowance at 3 and the flag unset;
  with the player acting on a hand of two tiles and a pool of one, the new hand has three
  tiles and is not full.
\<close>

theorem mulligan_effects_counterexample:
  "mulliganCount (snd (mulligan False registeredRelics [3, 1, 4]
      ((Board (plainPool ''ETAOIN'') (plainPool []))
         \<lparr>currentPlayer := P2, state := ai_turn,
          playerRack := (Rack P1)\<lparr>tiles := tilesOf MAIN ''ABCDEFG''\<rparr>\<rparr>))) = 3
   \<and> \<not> hasUsedMulligan (snd (mulligan False registeredRelics [3, 1, 4]
      ((Board (plainPool ''ETAOIN'') (plainPool []))
         \<lparr>currentPlayer := P2, state := ai_turn,
          playerRack := (Rack P1)\<lparr>tiles := tilesOf MAIN ''ABCDEFG''\<rparr>\<rparr>)))
   \<and> length (tiles (playerRack (snd (mulligan False registeredRelics [3, 1, 4]
      ((Board (plainPool ''X'') (plainPool []))
         \<lparr>playerRack := (Rack P1)\<lparr>tiles := tilesOf MAIN ''AB''\<rparr>\<rparr>))))) = 3
   \<and> \<not> isFull (playerRack (snd (mulligan False registeredRelics [3, 1, 4]
      ((Board (plainPool ''X'') (plainPool []))
         \<lparr>playerRack := (Rack P1)\<lparr>tiles := tilesOf MAIN ''AB''\<rparr>\<rparr>))))"
  by code_simp


theorem mulligan_effects_witness:
  "currentPlayer ((Board (plainPool ''ETAOIN'') (plainPool []))
       \<lparr>currentPlayer := P2, state := ai_turn\<rparr>) \<noteq> P1
   \<and> mulligan False registeredRelics [3, 1, 4]
        ((Board (plainPool ''ETAOIN'') (plainPool []))\<lparr>currentPlayer := P2, state := ai_turn\<rparr>)
       = ([3, 1, 4],
          (Board (plainPool ''ETAOIN'') (plainPool []))\<lparr>currentPlayer := P2, state := ai_turn\<rparr>)
   \<and> currentPlayer ((Board (plainPool ''ETAOIN'') (plainPool []))
       \<lparr>playerRack := (Rack P1)\<lparr>tiles := tilesOf MAIN ''ABCDEFG''\<rparr>\<rparr>) = P1
   \<and> state ((Board (plainPool ''ETAOIN'') (plainPool []))
       \<lparr>playerRack := (Rack P1)\<lparr>tiles := tilesOf MAIN ''ABCDEFG''\<rparr>\<rparr>) = playing
   \<and> validateAllWords sampleDictionary ((Board (plainPool ''ETAOIN'') (plainPool []))
       \<lparr>playerRack := (Rack P1)\<lparr>tiles := tilesOf MAIN ''ABCDEFG''\<rparr>\<rparr>) = []
   \<and> isFull (playerRack ((Board (plainPool ''ETAOIN'') (plainPool []))
       \<lparr>playerRack := (Rack P1)\<lparr>tiles := tilesOf MAIN ''ABCDEFG''\<rparr>\<rparr>))
   \<and> mulliganCount (snd (mulligan False registeredRelics [3, 1, 4]
        ((Board (plainPool ''ETAOIN'') (plainPool []))
           \<lparr>playerRack := (Rack P1)\<lparr>tiles := tilesOf MAIN ''ABCDEFG''\<rparr>\<rparr>))) = 2
   \<and> length (tiles (playerRack (snd (mulligan False registeredRelics [3, 1, 4]
        ((Board (plainPool ''ETAOIN'') (plainPool []))
           \<lparr>playerRack := (Rack P1)\<lparr>tiles := tilesOf MAIN ''ABCDEFG''\<rparr>\<rparr>))))) = 7
   \<and> (\<exists>g' b'. endTurn sampleDictionary registeredRelics [3, 1, 4]
        ((Board (plainPool ''ETAOIN'') (plainPool []))
           \<lparr>playerRack := (Rack P1)\<lparr>tiles := tilesOf MAIN ''ABCDEFG''\<rparr>\<rparr>) = (True, [], g', b')
          \<and> mulliganCount b' = 3 \<and> \<not> hasUsedMulligan b')"
proof -
  let ?e = "(Board (plainPool ''ETAOIN'') (plainPool []))\<lparr>currentPlayer := P2, state := ai_turn\<rparr>"
  let ?b = "(Board (plainPool ''ETAOIN'') (plainPool []))
       \<lparr>playerRack := (Rack P1)\<lparr>tiles := tilesOf MAIN ''ABCDEFG''\<rparr>\<rparr>"
  have h1: "currentPlayer ?e \<noteq> P1" by simp
  have h2: "currentPlayer ?b = P1" by (simp add: Board_def)
  have h3: "state ?b = playing" by (simp add: Board_def)
  have h4: "validateAllWords sampleDictionary ?b = []" by code_simp
  have h5: "isFull (playerRack ?b)" by code_simp
  have v: "mulliganCount ?b = 3" "\<not> hasUsedMulligan ?b" "maxTiles (playerRack ?b) = 7"
    "length (tiles (playerRack ?b)) = 7" "length (remainingTiles (playerTileSet ?b)) = 6"
    by (simp_all add: Board_def MULLIGAN_COUNT_def Rack_def RACK_CAPACITY_def tilesOf_def
          plainPool_def)
  have c1: "mulligan False registeredRelics [3, 1, 4] ?e = ([3, 1, 4], ?e)"
    using mulligan_effects [of ?e False registeredRelics "[3, 1, 4]" sampleDictionary] h1
    by blast
  from mulligan_effects [of ?b False registeredRelics "[3, 1, 4]" sampleDictionary] h2
  obtain g' r' ts' where
    m: "mulligan False registeredRelics [3, 1, 4] ?b =
               (g', if False then ?b\<lparr>playerRack := r', playerTileSet := ts'\<rparr>
                    else ?b\<lparr>playerRack := r', playerTileSet := ts',
                           mulliganCount := mulliganCount ?b - 1, hasUsedMulligan := True\<rparr>)"
    and l: "length (tiles r')
               = min (maxTiles (playerRack ?b))
                     (length (tiles (playerRack ?b)) + length (remainingTiles (playerTileSet ?b)))"
    by blast
  have c2: "mulliganCount (snd (mulligan False registeredRelics [3, 1, 4] ?b)) = 2"
    unfolding m using v(1) by simp
  have c3: "length (tiles (playerRack (snd (mulligan False registeredRelics [3, 1, 4] ?b)))) = 7"
    unfolding m using l v(3,4,5) by simp
  from mulligan_effects [of ?b False registeredRelics "[3, 1, 4]" sampleDictionary] h2 h3 h4 h5
  obtain g2 b2 where
    e: "endTurn sampleDictionary registeredRelics [3, 1, 4] ?b = (True, [], g2, b2)"
       "mulliganCount b2 = mulliganCount ?b" "hasUsedMulligan b2 = hasUsedMulligan ?b"
    by blast
  have c4: "\<exists>g' b'. endTurn sampleDictionary registeredRelics [3, 1, 4] ?b = (True, [], g', b')
          \<and> mulliganCount b' = 3 \<and> \<not> hasUsedMulligan b'"
    using e v(1,2) by (intro exI [of _ g2] exI [of _ b2]) simp
  show ?thesis by (intro conjI h1 h2 h3 h4 h5 c1 c2 c3 c4)
qed

section \<open>The word search of the opponent\<close>

lemma countOf_increment:
  "countOf (increment l cs) k = (if k = l then countOf cs l + 1 else countOf cs k)"
  by (induction cs) (auto simp: countOf_def)

lemma keys_increment: "fst ` set (increment l cs) = insert l (fst ` set cs)"
proof (induction cs)
  case Nil
  then show ?case by simp
next
  case (Cons a cs)
  obtain k n where a: "a = (k, n)" by (cases a)
  show ?case
  proof (cases "k = l")
    case True
    with a show ?thesis by auto
  next
    case False
    with a Cons show ?thesis by auto
  qed
qed

lemma key_in_set: "(k, n) \<in> set cs \<Longrightarrow> k \<in> fst ` set cs"
  by force

lemma distinct_increment:
  "distinct (map fst cs) \<Longrightarrow> distinct (map fst (increment l cs))"
proof (induction cs)
  case Nil
  then show ?case by simp
next
  case (Cons a cs)
  obtain k n where a: "a = (k, n)" by (cases a)
  from Cons have d: "distinct (map fst (increment l cs))" by simp
  from Cons.prems a have k: "k \<notin> fst ` set cs" by simp
  show ?case
  proof (cases "k = l")
    case True
    with a Cons.prems show ?thesis by simp
  next
    case False
    with k have "k \<notin> fst ` set (increment l cs)" by (simp add: keys_increment)
    with False a d show ?thesis by simp
  qed
qed

lemma foldl_increment:
  "countOf (foldl (\<lambda>counts l. increment (toLowerCase l) counts) cs ls) k
     = countOf cs k + count_list (map toLowerCase ls) k
   \<and> fst ` set (foldl (\<lambda>counts l. increment (toLowerCase l) counts) cs ls)
     = fst ` set cs \<union> set (map toLowerCase ls)
   \<and> (distinct (map fst cs) \<longrightarrow>
        distinct (map fst (foldl (\<lambda>counts l. increment (toLowerCase l) counts) cs ls)))"
proof (induction ls arbitrary: cs)
  case Nil
  then show ?case by simp
next
  case (Cons x ls)
  from Cons [of "increment (toLowerCase x) cs"]
  show ?case
    by (auto simp: countOf_increment keys_increment distinct_increment)
qed

lemma countOf_getLetterCounts:
  "countOf (getLetterCounts ls) k = count_list (map toLowerCase ls) k"
  using foldl_increment [of "[]" ls k] by (simp add: getLetterCounts_def countOf_def)

lemma keys_getLetterCounts: "fst ` set (getLetterCounts ls) = set (map toLowerCase ls)"
  using foldl_increment [of "[]" ls] by (simp add: getLetterCounts_def)

lemma distinct_getLetterCounts: "distinct (map fst (getLetterCounts ls))"
  using foldl_increment [of "[]" ls] by (simp add: getLetterCounts_def)

lemma entry_getLetterCounts:
  assumes "(l, n) \<in> set (getLetterCounts ls)"
  shows "n = count_list (map toLowerCase ls) l \<and> l \<in> set (map toLowerCase ls)"
proof -
  from assms distinct_getLetterCounts [of ls] have "map_of (getLetterCounts ls) l = Some n"
    by simp
  then have "countOf (getLetterCounts ls) l = n" by (simp add: countOf_def)
  moreover from assms have "l \<in> fst ` set (getLetterCounts ls)" by force
  ultimately show ?thesis
    by (simp add: countOf_getLetterCounts keys_getLetterCounts)
qed

lemma countOf_wellFormed:
  assumes "wellFormedEntry e"
  shows "countOf (letters e) l = count_list (map toLowerCase (word e)) l"
proof (cases "map_of (letters e) l")
  case None
  then have "l \<notin> fst ` set (letters e)" by (simp add: map_of_eq_None_iff)
  with assms have "l \<notin> set (map toLowerCase (word e))"
    by (auto simp: wellFormedEntry_def)
  then have "count_list (map toLowerCase (word e)) l = 0"
    by (simp only: count_list_0_iff not_False_eq_True)
  with None show ?thesis by (simp add: countOf_def)
next
  case (Some n)
  then have "(l, n) \<in> set (letters e)" by (rule map_of_SomeD)
  with assms have "n = count_list (map toLowerCase (word e)) l"
    by (auto simp: wellFormedEntry_def)
  with Some show ?thesis by (simp add: countOf_def)
qed

lemma canFormWord_iff:
  assumes wf: "wellFormedEntry e"
  shows "canFormWord (letters e) (getLetterCounts allLetters) \<longleftrightarrow>
         (\<forall>c \<in> set (map toLowerCase (word e)).
            count_list (map toLowerCase (word e)) c \<le> count_list (map toLowerCase allLetters) c)"
proof
  assume c: "canFormWord (letters e) (getLetterCounts allLetters)"
  show "\<forall>c \<in> set (map toLowerCase (word e)).
            count_list (map toLowerCase (word e)) c \<le> count_list (map toLowerCase allLetters) c"
  proof
    fix x assume "x \<in> set (map toLowerCase (word e))"
    with wf obtain n where n: "(x, n) \<in> set (letters e)"
      by (fastforce simp: wellFormedEntry_def)
    with wf have "n = count_list (map toLowerCase (word e)) x"
      by (auto simp: wellFormedEntry_def)
    moreover from c n have "n \<le> countOf (getLetterCounts allLetters) x"
      by (auto simp: canFormWord_def list_all_iff)
    ultimately show "count_list (map toLowerCase (word e)) x
                       \<le> count_list (map toLowerCase allLetters) x"
      by (simp add: countOf_getLetterCounts)
  qed
next
  assume a: "\<forall>c \<in> set (map toLowerCase (word e)).
            count_list (map toLowerCase (word e)) c \<le> count_list (map toLowerCase allLetters) c"
  have "\<And>l n. (l, n) \<in> set (letters e) \<Longrightarrow> n \<le> countOf (getLetterCounts allLetters) l"
  proof -
    fix l n assume "(l, n) \<in> set (letters e)"
    with wf have n: "n = count_list (map toLowerCase (word e)) l"
      by (auto simp: wellFormedEntry_def)
    show "n \<le> countOf (getLetterCounts allLetters) l"
    proof (cases "l \<in> set (map toLowerCase (word e))")
      case True
      with a have "count_list (map toLowerCase (word e)) l
                     \<le> count_list (map toLowerCase allLetters) l" by blast
      with n show ?thesis by (simp add: countOf_getLetterCounts)
    next
      case False
      then have "count_list (map toLowerCase (word e)) l = 0"
        by (simp only: count_list_0_iff not_False_eq_True)
      with n show ?thesis by simp
    qed
  qed
  then show "canFormWord (letters e) (getLetterCounts allLetters)"
    by (auto simp: canFormWord_def list_all_iff not_less)
qed

lemma containsAllLetters_iff:
  assumes wf: "wellFormedEntry e"
  shows "containsAllLetters (letters e) (getLetterCounts requiredLetters) \<longleftrightarrow>
         (\<forall>c \<in> set (map toLowerCase requiredLetters).
            count_list (map toLowerCase requiredLetters) c
              \<le> count_list (map toLowerCase (word e)) c)"
proof
  assume c: "containsAllLetters (letters e) (getLetterCounts requiredLetters)"
  show "\<forall>c \<in> set (map toLowerCase requiredLetters).
            count_list (map toLowerCase requiredLetters) c
              \<le> count_list (map toLowerCase (word e)) c"
  proof
    fix x assume "x \<in> set (map toLowerCase requiredLetters)"
    then have "x \<in> fst ` set (getLetterCounts requiredLetters)"
      by (simp only: keys_getLetterCounts)
    then obtain n where n: "(x, n) \<in> set (getLetterCounts requiredLetters)" by force
    from entry_getLetterCounts [OF n]
    have "n = count_list (map toLowerCase requiredLetters) x" by simp
    moreover from c n have "n \<le> countOf (letters e) x"
      by (auto simp: containsAllLetters_def list_all_iff)
    ultimately show "count_list (map toLowerCase requiredLetters) x
                       \<le> count_list (map toLowerCase (word e)) x"
      by (simp add: countOf_wellFormed [OF wf])
  qed
next
  assume a: "\<forall>c \<in> set (map toLowerCase requiredLetters).
            count_list (map toLowerCase requiredLetters) c
              \<le> count_list (map toLowerCase (word e)) c"
  have "\<And>l n. (l, n) \<in> set (getLetterCounts requiredLetters) \<Longrightarrow> n \<le> countOf (letters e) l"
  proof -
    fix l n assume "(l, n) \<in> set (getLetterCounts requiredLetters)"
    from entry_getLetterCounts [OF this]
    have n: "n = count_list (map toLowerCase requiredLetters) l"
      and l: "l \<in> set (map toLowerCase requiredLetters)" by blast+
    from a l have "count_list (map toLowerCase requiredLetters) l
                     \<le> count_list (map toLowerCase (word e)) l" by blast
    with n show "n \<le> countOf (letters e) l"
      by (simp add: countOf_wellFormed [OF wf])
  qed
  then show "containsAllLetters (letters e) (getLetterCounts requiredLetters)"
    by (auto simp: containsAllLetters_def list_all_iff not_less)
qed

lemma accepts_iff_candidate:
  assumes "wellFormedEntry e"
  shows "accepts requiredLetters (getLetterCounts requiredLetters) (getLetterCounts allLetters) e
         \<longleftrightarrow> candidate allLetters requiredLetters e"
  unfolding accepts_def candidate_def
    canFormWord_iff [OF assms] containsAllLetters_iff [OF assms] MIN_WORD_LENGTH_def
  by auto

lemma firstLongest_step:
  assumes inv: "firstLongest ok es i bw"
    and b0: "bw = None \<longrightarrow> bl = 0"
    and b1: "\<forall>w. bw = Some w \<longrightarrow> bl = length w"
    and pos: "ok (es ! i) \<longrightarrow> 0 < length (word (es ! i))"
  shows "firstLongest ok es (Suc i)
           (if ok (es ! i) \<and> length (word (es ! i)) > bl then Some (word (es ! i)) else bw)"
proof (cases "ok (es ! i) \<and> length (word (es ! i)) > bl")
  case True
  have le: "\<forall>j < i. ok (es ! j) \<longrightarrow> length (word (es ! j)) \<le> bl"
  proof (cases bw)
    case None
    with inv show ?thesis by (simp add: firstLongest_def)
  next
    case (Some w)
    with inv b1 show ?thesis by (auto simp: firstLongest_def)
  qed
  from True le have "\<forall>j < Suc i. ok (es ! j) \<longrightarrow> length (word (es ! j)) \<le> length (word (es ! i))"
    by (auto simp: less_Suc_eq)
  moreover from True le have "\<forall>j < i. ok (es ! j) \<longrightarrow> length (word (es ! j)) < length (word (es ! i))"
    by auto
  ultimately show ?thesis
    using True by (auto simp: firstLongest_def intro!: exI [of _ i])
next
  case False
  show ?thesis
  proof (cases bw)
    case None
    with b0 have "bl = 0" by simp
    with False pos have "\<not> ok (es ! i)" by auto
    with None inv False show ?thesis
      by (auto simp: firstLongest_def less_Suc_eq)
  next
    case (Some w)
    with b1 have bl: "bl = length w" by simp
    from Some inv obtain k where
      k: "k < i" "ok (es ! k)" "word (es ! k) = w"
         "\<forall>j < i. ok (es ! j) \<longrightarrow> length (word (es ! j)) \<le> length w"
         "\<forall>j < k. ok (es ! j) \<longrightarrow> length (word (es ! j)) < length w"
      by (auto simp: firstLongest_def)
    from False bl have "ok (es ! i) \<longrightarrow> length (word (es ! i)) \<le> length w" by auto
    with k(4) have "\<forall>j < Suc i. ok (es ! j) \<longrightarrow> length (word (es ! j)) \<le> length w"
      by (auto simp: less_Suc_eq)
    with k(1,2,3,5) have "firstLongest ok es (Suc i) (Some w)"
      by (auto simp: firstLongest_def intro!: exI [of _ k])
    with False Some show ?thesis by auto
  qed
qed

lemma searchFrom_firstLongest:
  "dictLimit \<le> length (mainDictionary d) \<Longrightarrow>
   \<forall>e. accepts rl rc ac e \<longrightarrow> 0 < length (word e) \<Longrightarrow>
   i \<le> dictLimit \<Longrightarrow> firstLongest (accepts rl rc ac) (mainDictionary d) i bw \<Longrightarrow>
   (bw = None \<longrightarrow> bl = 0) \<Longrightarrow> (\<forall>w. bw = Some w \<longrightarrow> bl = length w) \<Longrightarrow>
   firstLongest (accepts rl rc ac) (mainDictionary d) dictLimit
     (searchFrom d dictLimit rl rc ac i bw bl)"
proof (induction d dictLimit rl rc ac i bw bl rule: searchFrom.induct)
  case (1 d dictLimit rl rc ac i bw bl)
  note lim = "1.prems"(1) and pos = "1.prems"(2)
  show ?case
  proof (cases "i < dictLimit")
    case False
    with "1.prems"(3) have "i = dictLimit" by simp
    moreover from False have "searchFrom d dictLimit rl rc ac i bw bl = bw"
      using searchFrom.simps [of d dictLimit rl rc ac i bw bl] by simp
    ultimately show ?thesis using "1.prems"(4) by simp
  next
    case True
    let ?e = "mainDictionary d ! i"
    from True lim have "i < length (mainDictionary d)" by linarith
    then have g: "getWordByRank (int i) d = Some ?e"
      by (simp add: getWordByRank_def)
    from pos have p: "accepts rl rc ac ?e \<longrightarrow> 0 < length (word ?e)" by simp
    note st = firstLongest_step [OF "1.prems"(4) "1.prems"(5) "1.prems"(6) p]
    from True have s: "Suc i \<le> dictLimit" by simp
    show ?thesis
    proof (cases "accepts rl rc ac ?e \<and> length (word ?e) > bl")
      case t: True
      with st have "firstLongest (accepts rl rc ac) (mainDictionary d) (Suc i) (Some (word ?e))"
        by simp
      then have r: "firstLongest (accepts rl rc ac) (mainDictionary d) dictLimit
           (searchFrom d dictLimit rl rc ac (Suc i) (Some (word ?e)) (length (word ?e)))"
        by (intro "1.IH"(1) [OF True g t lim pos s]) simp_all
      from t have c: "(accepts rl rc ac ?e \<and> bl < length (word ?e)) = True" by simp
      have eq: "searchFrom d dictLimit rl rc ac i bw bl
                  = searchFrom d dictLimit rl rc ac (Suc i) (Some (word ?e)) (length (word ?e))"
        using True g searchFrom.simps [of d dictLimit rl rc ac i bw bl]
        by (simp only: c if_True if_False option.case)
      show ?thesis unfolding eq by (rule r)
    next
      case f: False
      with st have "firstLongest (accepts rl rc ac) (mainDictionary d) (Suc i) bw"
        by auto
      then have r: "firstLongest (accepts rl rc ac) (mainDictionary d) dictLimit
           (searchFrom d dictLimit rl rc ac (Suc i) bw bl)"
        by (intro "1.IH"(2) [OF True g f lim pos s] "1.prems"(5) "1.prems"(6))
      from f have c: "(accepts rl rc ac ?e \<and> bl < length (word ?e)) = False" by simp
      have eq: "searchFrom d dictLimit rl rc ac i bw bl
                  = searchFrom d dictLimit rl rc ac (Suc i) bw bl"
        using True g searchFrom.simps [of d dictLimit rl rc ac i bw bl]
        by (simp only: c if_True if_False option.case)
      show ?thesis unfolding eq by (rule r)
    qed
  qed
qed

lemma firstLongest_cong:
  assumes "\<forall>j < n. ok (es ! j) = ok' (es ! j)"
  shows "firstLongest ok es n r = firstLongest ok' es n r"
proof (cases r)
  case None
  with assms show ?thesis by (simp add: firstLongest_def)
next
  case (Some w)
  have "\<And>k. k < n \<Longrightarrow> (\<forall>j<k. ok (es ! j) \<longrightarrow> length (word (es ! j)) < length w)
                      = (\<forall>j<k. ok' (es ! j) \<longrightarrow> length (word (es ! j)) < length w)"
    using assms by (meson less_trans)
  with Some assms show ?thesis
    by (simp add: firstLongest_def cong: conj_cong)
qed

lemma dictDivisor_cases:
  "dictDivisor (diffSettings difficulty) =
     (if difficulty = 1 then 128 else if difficulty = 2 then 32 else if difficulty = 3 then 16
      else if difficulty = 4 then 4 else if difficulty = 5 then 1 else 16)"
proof -
  have "difficulty < 1 \<or> difficulty = 1 \<or> difficulty = 2 \<or> difficulty = 3 \<or> difficulty = 4
        \<or> difficulty = 5 \<or> 5 < difficulty" by arith
  then show ?thesis
    by (elim disjE) (simp_all add: dictDivisor_def diffSettings_def DIFFICULTY_def MEDIUM_def)
qed

lemma accepts_length: "accepts rl rc ac e \<Longrightarrow> 0 < length (word e)"
  by (auto simp: accepts_def MIN_WORD_LENGTH_def split: if_splits)

lemma wellFormed_getLetterCounts: "wellFormedEntry \<lparr>word = w, letters = getLetterCounts w\<rparr>"
  using entry_getLetterCounts [of _ _ w] keys_getLetterCounts [of w]
  by (auto simp: wellFormedEntry_def)

text \<open>
  Claim C4. Over a dictionary of well-formed entries, with N the dictionary size divided
  (rounding down) by the divisor of the difficulty setting (128, 32, 16, 4, 1 for
  difficulties 1 to 5, 16 for any other), findBestWord returns null exactly when none of the
  first N entries is a candidate, and otherwise the word of a candidate among the first N
  that is at least as long as every candidate among them and strictly longer than every
  candidate before it: the longest, and among equal lengths the earliest in rank order. A
  candidate is (a) strictly longer than the required letters when there are any, (b) at
  least two letters long, (c) made of the available letters, (d) holding each required
  letter as often as required.
\<close>

theorem findBestWord_first_longest:
  assumes "\<forall>e \<in> set (mainDictionary d). wellFormedEntry e"
  shows "getSize d div dictDivisor (diffSettings difficulty) \<le> length (mainDictionary d)
    \<and> dictDivisor (diffSettings difficulty) =
        (if difficulty = 1 then 128 else if difficulty = 2 then 32 else if difficulty = 3 then 16
         else if difficulty = 4 then 4 else if difficulty = 5 then 1 else 16)
    \<and> (findBestWord difficulty d allLetters requiredLetters = None \<longrightarrow>
         (\<forall>j < getSize d div dictDivisor (diffSettings difficulty).
            \<not> candidate allLetters requiredLetters (mainDictionary d ! j)))
    \<and> (\<forall>w. findBestWord difficulty d allLetters requiredLetters = Some w \<longrightarrow>
         (\<exists>k < getSize d div dictDivisor (diffSettings difficulty).
            candidate allLetters requiredLetters (mainDictionary d ! k)
            \<and> word (mainDictionary d ! k) = w
            \<and> (\<forall>j < getSize d div dictDivisor (diffSettings difficulty).
                  candidate allLetters requiredLetters (mainDictionary d ! j) \<longrightarrow>
                  length (word (mainDictionary d ! j)) \<le> length w)
            \<and> (\<forall>j < k. candidate allLetters requiredLetters (mainDictionary d ! j) \<longrightarrow>
                  length (word (mainDictionary d ! j)) < length w)))"
proof -
  let ?N = "getSize d div dictDivisor (diffSettings difficulty)"
  let ?rc = "getLetterCounts requiredLetters"
  let ?ac = "getLetterCounts allLetters"
  let ?es = "mainDictionary d"
  have n: "?N \<le> length ?es"
    by (simp add: getSize_def div_le_dividend)
  have pos: "\<forall>e. accepts requiredLetters ?rc ?ac e \<longrightarrow> 0 < length (word e)"
    by (auto dest: accepts_length)
  have init: "firstLongest (accepts requiredLetters ?rc ?ac) ?es 0 None"
    by (simp add: firstLongest_def)
  have "firstLongest (accepts requiredLetters ?rc ?ac) ?es ?N
          (searchFrom d ?N requiredLetters ?rc ?ac 0 None 0)"
    by (rule searchFrom_firstLongest [OF n pos _ init]) simp_all
  then have a: "firstLongest (accepts requiredLetters ?rc ?ac) ?es ?N
          (findBestWord difficulty d allLetters requiredLetters)"
    by (simp add: findBestWord_def calculateDictLimit_def)
  have "\<forall>j < ?N. accepts requiredLetters ?rc ?ac (?es ! j)
                   = candidate allLetters requiredLetters (?es ! j)"
  proof (intro allI impI)
    fix j assume "j < ?N"
    with n have "?es ! j \<in> set ?es" by simp
    with assms have "wellFormedEntry (?es ! j)" by blast
    then show "accepts requiredLetters ?rc ?ac (?es ! j)
                   = candidate allLetters requiredLetters (?es ! j)"
      by (rule accepts_iff_candidate)
  qed
  from firstLongest_cong [OF this] a
  have c: "firstLongest (candidate allLetters requiredLetters) ?es ?N
          (findBestWord difficulty d allLetters requiredLetters)"
    by simp
  have r1: "findBestWord difficulty d allLetters requiredLetters = None \<longrightarrow>
         (\<forall>j < ?N. \<not> candidate allLetters requiredLetters (?es ! j))"
    using c by (auto simp: firstLongest_def)
  have r2: "\<forall>w. findBestWord difficulty d allLetters requiredLetters = Some w \<longrightarrow>
         (\<exists>k < ?N.
            candidate allLetters requiredLetters (?es ! k)
            \<and> word (?es ! k) = w
            \<and> (\<forall>j < ?N.
                  candidate allLetters requiredLetters (?es ! j) \<longrightarrow>
                  length (word (?es ! j)) \<le> length w)
            \<and> (\<forall>j < k. candidate allLetters requiredLetters (?es ! j) \<longrightarrow>
                  length (word (?es ! j)) < length w))"
  proof (intro allI impI)
    fix w assume "findBestWord difficulty d allLetters requiredLetters = Some w"
    with c have "firstLongest (candidate allLetters requiredLetters) ?es ?N (Some w)" by simp
    then show "\<exists>k < ?N.
            candidate allLetters requiredLetters (?es ! k)
            \<and> word (?es ! k) = w
            \<and> (\<forall>j < ?N.
                  candidate allLetters requiredLetters (?es ! j) \<longrightarrow>
                  length (word (?es ! j)) \<le> length w)
            \<and> (\<forall>j < k. candidate allLetters requiredLetters (?es ! j) \<longrightarrow>
                  length (word (?es ! j)) < length w)"
      by (simp add: firstLongest_def)
  qed
  show ?thesis
    by (intro conjI n dictDivisor_cases r1 r2)
qed

theorem findBestWord_first_longest_witness:
  "list_all wellFormedEntry (mainDictionary sampleDictionary)
   \<and> findBestWord 5 sampleDictionary ''CATSE'' ''CAT'' = Some ''cats''
   \<and> (\<exists>k < 6. candidate ''CATSE'' ''CAT'' (mainDictionary sampleDictionary ! k)
          \<and> word (mainDictionary sampleDictionary ! k) = ''cats''
          \<and> (\<forall>j < k. candidate ''CATSE'' ''CAT'' (mainDictionary sampleDictionary ! j) \<longrightarrow>
                length (word (mainDictionary sampleDictionary ! j)) < length ''cats''))"
proof -
  have h: "\<forall>e \<in> set (mainDictionary sampleDictionary). wellFormedEntry e"
    by (auto simp: sampleDictionary_def wellFormed_getLetterCounts)
  have e: "findBestWord 5 sampleDictionary ''CATSE'' ''CAT'' = Some ''cats''"
    by code_simp
  have s: "getSize sampleDictionary div dictDivisor (diffSettings 5) = 6"
    by code_simp
  from findBestWord_first_longest [OF h, of 5 "''CATSE''" "''CAT''"] e
  have "\<exists>k < getSize sampleDictionary div dictDivisor (diffSettings 5).
          candidate ''CATSE'' ''CAT'' (mainDictionary sampleDictionary ! k)
          \<and> word (mainDictionary sampleDictionary ! k) = ''cats''
          \<and> (\<forall>j < k. candidate ''CATSE'' ''CAT'' (mainDictionary sampleDictionary ! j) \<longrightarrow>
                length (word (mainDictionary sampleDictionary ! j)) < length ''cats'')"
    by blast
  then have c: "\<exists>k < 6. candidate ''CATSE'' ''CAT'' (mainDictionary sampleDictionary ! k)
          \<and> word (mainDictionary sampleDictionary ! k) = ''cats''
          \<and> (\<forall>j < k. candidate ''CATSE'' ''CAT'' (mainDictionary sampleDictionary ! j) \<longrightarrow>
                length (word (mainDictionary sampleDictionary ! j)) < length ''cats'')"
    unfolding s .
  from h have h': "list_all wellFormedEntry (mainDictionary sampleDictionary)"
    by (simp only: list_all_iff)
  show ?thesis by (intro conjI h' e c)
qed

section \<open>A word the opponent fails to finish\<close>

text \<open>
  Claim C3 asks that a lane play which cannot match a letter leaves lane, enemy rack and
  enemy pool as they were. playWord has no such path. The lane CAT belongs to the player;
  the opponent holds S, O, E, E, E, E, E and has selected O, S, E; the word search returns
  coats. playWord clears the lane, draws C again, moves O from the rack (marking selection
  index 0 as used), draws A and T, and then looks for S among the rack tiles that are not
  marked: S now stands at rack position 0, which is marked, so the search fails although S
  is in the rack. playWord returns false and leaves the lane holding COAT with no owner and
  the rack without its O.
\<close>

theorem playWord_abandons_midway:
  "findBestWord 5 sampleDictionary ''CATOSE'' ''CAT'' = Some ''coats''
   \<and> playWord 0 ''coats'' ''CAT'' ''OSE''
        ((Board (plainPool []) (plainPool ''X''))
           \<lparr>currentPlayer := P2, state := ai_turn,
            lanes := [laneWith 0 STEEL ''CAT'' (Some P1) 3, Lane 1, Lane 2],
            enemyRack := (Rack P2)\<lparr>tiles := tilesOf MAIN ''SOEEEEE''\<rparr>\<rparr>)
       = Inr (False,
           (Board (plainPool []) (plainPool ''X''))
             \<lparr>currentPlayer := P2, state := ai_turn,
              lanes := [laneWith 0 MAIN ''COAT'' None 3, Lane 1, Lane 2],
              enemyRack := (Rack P2)\<lparr>tiles := tilesOf MAIN ''SEEEEE''\<rparr>\<rparr>)"
  by code_simp

end
